theory Spec2Isabelle
  imports Main "HOL-Library.DAList"
begin

section \<open>Session lifecycle and abuse control of apisecure\<close>

text \<open>
  The development embeds \<^verbatim>\<open>src/auth/sessionManagement.ts\<close> and
  \<^verbatim>\<open>src/protection/rateLimiter.ts\<close>.

  Conventions of the embedding.
  \<^item> A JavaScript \<^verbatim>\<open>Map\<close> is an insertion-ordered table with unique keys: a
    distinct association list (\<open>('k, 'v) alist\<close>). \<^verbatim>\<open>m.get(k)\<close> is
    \<open>DAList.lookup m k\<close>, \<^verbatim>\<open>m.set(k, v)\<close> is \<open>DAList.update k v m\<close> (in place when
    the key exists, appended otherwise), \<^verbatim>\<open>m.delete(k)\<close> is \<open>DAList.delete k m\<close>, and
    a \<^verbatim>\<open>for (const [k, v] of m)\<close> loop is a \<open>fold\<close> over the entries
    \<open>DAList.impl_of m\<close>.
  \<^item> Numbers (timestamps in milliseconds, durations, counters, limits) are integers.
  \<^item> \<^verbatim>\<open>Date.now()\<close> is a parameter \<open>now\<close> of every operation that reads the clock;
    the reads made inside one synchronous call return the same instant.
  \<^item> \<^verbatim>\<open>getConfig()\<close> is a parameter \<open>config\<close> of every operation that calls it: the
    configuration current at the moment of the call, read by value. The objects that the
    code keeps by reference (the rules of a \<^verbatim>\<open>RateLimiter\<close>) are modelled with an
    explicit store of objects further down.
  \<^item> \<^verbatim>\<open>randomBytes(32).toString("hex")\<close> is a parameter \<open>sessionId\<close> of \<open>create\<close>.
  \<^item> A mutated object is returned updated (explicit state passing); a thrown
    exception is the \<open>Inl\<close> branch of a sum.
\<close>

subsection \<open>Configuration (\<^verbatim>\<open>src/utils/config.ts\<close>)\<close>

record RateLimitRule =
  windowMs :: int
  maxRequests :: int

text \<open>The fields of \<^verbatim>\<open>SecurityConfig\<close> that the session and rate-limit code reads.\<close>

record SecurityConfig =
  sessionTTL :: int
  defaultRateLimit :: RateLimitRule

subsection \<open>Sessions and the in-memory store\<close>

text \<open>The field \<^verbatim>\<open>id\<close> is called \<open>id'\<close>: \<open>id\<close> is the identity function of HOL.\<close>

record 'v Session =
  id' :: string
  userId :: string
  createdAt :: int
  expiresAt :: int
  data :: "string \<rightharpoonup> 'v"

type_synonym 'v sessions = "(string, 'v Session) alist"

definition SessionStore_create ::
  "SecurityConfig \<Rightarrow> string \<Rightarrow> int \<Rightarrow> string \<Rightarrow> (string \<rightharpoonup> 'v) \<Rightarrow> 'v sessions
     \<Rightarrow> 'v Session \<times> 'v sessions" where
  "SessionStore_create config sessionId now uid d sessions =
     (let session = \<lparr>id' = sessionId, userId = uid, createdAt = now,
                      expiresAt = now + sessionTTL config, data = d\<rparr>
      in (session, DAList.update sessionId session sessions))"

definition SessionStore_delete :: "string \<Rightarrow> 'v sessions \<Rightarrow> 'v sessions" where
  "SessionStore_delete sessionId sessions = DAList.delete sessionId sessions"

definition SessionStore_get ::
  "int \<Rightarrow> string \<Rightarrow> 'v sessions \<Rightarrow> 'v Session option \<times> 'v sessions" where
  "SessionStore_get now sessionId sessions =
     (case DAList.lookup sessions sessionId of
        None \<Rightarrow> (None, sessions)
      | Some session \<Rightarrow>
          if expiresAt session < now
          then (None, SessionStore_delete sessionId sessions)
          else (Some session, sessions))"

definition SessionStore_update ::
  "int \<Rightarrow> string \<Rightarrow> (string \<rightharpoonup> 'v) \<Rightarrow> 'v sessions \<Rightarrow> 'v sessions" where
  "SessionStore_update now sessionId d sessions =
     (case SessionStore_get now sessionId sessions of
        (None, sessions') \<Rightarrow> sessions'
      | (Some session, sessions') \<Rightarrow>
          DAList.update sessionId (session\<lparr>data := data session ++ d\<rparr>) sessions')"

definition SessionStore_cleanup :: "int \<Rightarrow> 'v sessions \<Rightarrow> 'v sessions" where
  "SessionStore_cleanup now sessions =
     fold (\<lambda>(sessionId, session) m.
             if expiresAt session < now then DAList.delete sessionId m else m)
          (DAList.impl_of sessions) sessions"

definition SessionStore_refresh ::
  "SecurityConfig \<Rightarrow> int \<Rightarrow> string \<Rightarrow> 'v sessions \<Rightarrow> 'v sessions" where
  "SessionStore_refresh config now sessionId sessions =
     (case DAList.lookup sessions sessionId of
        None \<Rightarrow> sessions
      | Some session \<Rightarrow>
          DAList.update sessionId (session\<lparr>expiresAt := now + sessionTTL config\<rparr>) sessions)"


subsection \<open>RateLimiter (\<^verbatim>\<open>src/protection/rateLimiter.ts\<close>)\<close>

record RateLimitInfo =
  count :: int
  resetTime :: int

type_synonym storage = "(string, RateLimitInfo) alist"

record RateLimiter =
  storage :: storage
  rules :: "RateLimitRule list"

text \<open>
  The storage key is the template literal \<^verbatim>\<open>`${clientId}:${rule.windowMs}`\<close>. A
  number is printed in decimal, with a leading minus sign when negative (JavaScript does
  so for every integer below \<open>10\<^sup>2\<^sup>1\<close> in absolute value).
\<close>

definition digit_char :: "nat \<Rightarrow> char" where
  "digit_char d = ''0123456789'' ! d"

fun string_of_nat :: "nat \<Rightarrow> string" where
  "string_of_nat n =
     (if n < 10 then [digit_char n] else string_of_nat (n div 10) @ [digit_char (n mod 10)])"

declare string_of_nat.simps [simp del]

definition Number_toString :: "int \<Rightarrow> string" where
  "Number_toString i =
     (if i < 0 then CHR ''-'' # string_of_nat (nat (- i)) else string_of_nat (nat i))"

definition RateLimiter_key :: "string \<Rightarrow> RateLimitRule \<Rightarrow> string" where
  "RateLimiter_key clientId rule = clientId @ '':'' @ Number_toString (windowMs rule)"

text \<open>
  \<^verbatim>\<open>constructor(rules = [])\<close>: an empty list falls back to the configured default rule.
  \<open>RateLimiter_new\<close> is the limiter as it stands when the constructor returns, with its
  rules read by value. The object itself keeps its rules by reference; that is
  \<open>RateLimiter_constructor\<close> below, and \<open>RateLimiter_new\<close> is what it shows at that moment.
\<close>

definition RateLimiter_new :: "SecurityConfig \<Rightarrow> RateLimitRule list \<Rightarrow> RateLimiter" where
  "RateLimiter_new config rs =
     \<lparr>storage = DAList.empty,
      rules = (if length rs > 0 then rs else [defaultRateLimit config])\<rparr>"

definition RateLimiter_cleanup :: "int \<Rightarrow> storage \<Rightarrow> storage" where
  "RateLimiter_cleanup now st =
     fold (\<lambda>(key, limitInfo) m. if now > resetTime limitInfo then DAList.delete key m else m)
          (DAList.impl_of st) st"

text \<open>
  The body of \<^verbatim>\<open>this.rules.forEach((rule) => ...)\<close> in \<^verbatim>\<open>isAllowed\<close>, in two parts: the
  counter that is written back for the rule, and the callback itself, which carries the
  storage and the local variable \<^verbatim>\<open>isAllowed\<close>.
\<close>

definition next_limitInfo :: "int \<Rightarrow> RateLimitRule \<Rightarrow> RateLimitInfo option \<Rightarrow> RateLimitInfo" where
  "next_limitInfo now rule stored =
     (let limitInfo = (case stored of
                         Some info \<Rightarrow> info
                       | None \<Rightarrow> \<lparr>count = 0, resetTime = now + windowMs rule\<rparr>)
      in if now > resetTime limitInfo
         then limitInfo\<lparr>count := 1, resetTime := now + windowMs rule\<rparr>
         else limitInfo\<lparr>count := count limitInfo + 1\<rparr>)"

definition isAllowed_rule ::
  "int \<Rightarrow> string \<Rightarrow> RateLimitRule \<Rightarrow> storage \<times> bool \<Rightarrow> storage \<times> bool" where
  "isAllowed_rule now clientId rule = (\<lambda>(st, isAllowed).
     let key = RateLimiter_key clientId rule;
         limitInfo = next_limitInfo now rule (DAList.lookup st key);
         st' = DAList.update key limitInfo st
     in (st', if count limitInfo > maxRequests rule then False else isAllowed))"

definition RateLimiter_isAllowed :: "int \<Rightarrow> string \<Rightarrow> RateLimiter \<Rightarrow> bool \<times> RateLimiter" where
  "RateLimiter_isAllowed now clientId rl =
     (let st0 = RateLimiter_cleanup now (storage rl);
          (st, isAllowed) = fold (isAllowed_rule now clientId) (rules rl) (st0, True)
      in (isAllowed, rl\<lparr>storage := st\<rparr>))"

definition RateLimiter_reset :: "string \<Rightarrow> RateLimiter \<Rightarrow> RateLimiter" where
  "RateLimiter_reset clientId rl =
     rl\<lparr>storage := fold (\<lambda>rule m. DAList.delete (RateLimiter_key clientId rule) m)
                         (rules rl) (storage rl)\<rparr>"

text \<open>
  The counters at the moment the \<^verbatim>\<open>forEach\<close> of \<^verbatim>\<open>isAllowed\<close> has handled the first
  \<open>n\<close> rules (\<open>n = 0\<close>: right after \<^verbatim>\<open>this.cleanup()\<close>).
\<close>

definition counters_after :: "nat \<Rightarrow> int \<Rightarrow> string \<Rightarrow> RateLimiter \<Rightarrow> storage" where
  "counters_after n now clientId rl =
     fst (fold (isAllowed_rule now clientId) (take n (rules rl))
            (RateLimiter_cleanup now (storage rl), True))"

text \<open>A run of successive \<^verbatim>\<open>isAllowed(clientId)\<close> calls at the given clock readings.\<close>

fun isAllowed_calls :: "string \<Rightarrow> int list \<Rightarrow> RateLimiter \<Rightarrow> bool list \<times> RateLimiter" where
  "isAllowed_calls clientId [] rl = ([], rl)"
| "isAllowed_calls clientId (t # ts) rl =
     (let (b, rl') = RateLimiter_isAllowed t clientId rl;
          (bs, rl'') = isAllowed_calls clientId ts rl'
      in (b # bs, rl''))"

subsection \<open>BruteForceProtection (\<^verbatim>\<open>src/protection/rateLimiter.ts\<close>)\<close>

record BruteForceProtection =
  failedAttempts :: "(string, int) alist"
  lastAttemptTime :: "(string, int) alist"
  lockoutDuration :: int
  maxAttempts :: int

text \<open>
  \<^verbatim>\<open>constructor(maxAttempts = 5, lockoutDuration = 15 * 60 * 1000)\<close>: an argument that is
  left out (\<open>None\<close>) takes its default.
\<close>

definition BruteForceProtection_new :: "int option \<Rightarrow> int option \<Rightarrow> BruteForceProtection" where
  "BruteForceProtection_new m d =
     \<lparr>failedAttempts = DAList.empty, lastAttemptTime = DAList.empty,
      lockoutDuration = (case d of None \<Rightarrow> 15 * 60 * 1000 | Some d' \<Rightarrow> d'),
      maxAttempts = (case m of None \<Rightarrow> 5 | Some m' \<Rightarrow> m')\<rparr>"

text \<open>
  \<^verbatim>\<open>this.failedAttempts.get(identifier) || 0\<close>: a missing entry counts as zero (a stored
  zero is falsy and gives zero as well).
\<close>

definition attempts_of :: "BruteForceProtection \<Rightarrow> string \<Rightarrow> int" where
  "attempts_of bf identifier =
     (case DAList.lookup (failedAttempts bf) identifier of None \<Rightarrow> 0 | Some n \<Rightarrow> n)"

text \<open>The call of \<^verbatim>\<open>globalLogger.warn\<close> changes no state of the object and is left out.\<close>

definition recordFailedAttempt :: "int \<Rightarrow> string \<Rightarrow> BruteForceProtection \<Rightarrow> BruteForceProtection" where
  "recordFailedAttempt now identifier bf =
     (let attempts = attempts_of bf identifier + 1
      in bf\<lparr>failedAttempts := DAList.update identifier attempts (failedAttempts bf),
             lastAttemptTime := DAList.update identifier now (lastAttemptTime bf)\<rparr>)"

definition resetAttempts :: "string \<Rightarrow> BruteForceProtection \<Rightarrow> BruteForceProtection" where
  "resetAttempts identifier bf =
     bf\<lparr>failedAttempts := DAList.delete identifier (failedAttempts bf),
        lastAttemptTime := DAList.delete identifier (lastAttemptTime bf)\<rparr>"

text \<open>
  The test of \<^verbatim>\<open>clearExpiredLockouts\<close>. Its first conjunct \<^verbatim>\<open>lastAttemptTime &&\<close> is a
  truthiness test: it fails for a missing timestamp and for the timestamp \<open>0\<close>.
\<close>

definition lockout_expired :: "int \<Rightarrow> BruteForceProtection \<Rightarrow> string \<Rightarrow> int \<Rightarrow> bool" where
  "lockout_expired now bf identifier attempts =
     (case DAList.lookup (lastAttemptTime bf) identifier of
        None \<Rightarrow> False
      | Some lastTime \<Rightarrow>
          lastTime \<noteq> 0 \<and> attempts \<ge> maxAttempts bf \<and> now - lastTime > lockoutDuration bf)"

definition clearExpiredLockouts :: "int \<Rightarrow> BruteForceProtection \<Rightarrow> BruteForceProtection" where
  "clearExpiredLockouts now bf =
     fold (\<lambda>(identifier, attempts) b.
             if lockout_expired now b identifier attempts
             then b\<lparr>failedAttempts := DAList.delete identifier (failedAttempts b),
                    lastAttemptTime := DAList.delete identifier (lastAttemptTime b)\<rparr>
             else b)
          (DAList.impl_of (failedAttempts bf)) bf"

definition BruteForceProtection_isAllowed ::
  "int \<Rightarrow> string \<Rightarrow> BruteForceProtection \<Rightarrow> bool \<times> BruteForceProtection" where
  "BruteForceProtection_isAllowed now identifier bf =
     (let bf' = clearExpiredLockouts now bf
      in (attempts_of bf' identifier < maxAttempts bf', bf'))"

text \<open>
  Runs of calls on one \<^verbatim>\<open>BruteForceProtection\<close>: \<^verbatim>\<open>recordFailedAttempt\<close> and
  \<^verbatim>\<open>isAllowed\<close> with the clock reading of the call, and \<^verbatim>\<open>resetAttempts\<close>, each for
  any identifier.
\<close>

datatype guard_op = Fail int string | Clear string | Check int string

fun guard_step :: "guard_op \<Rightarrow> BruteForceProtection \<Rightarrow> BruteForceProtection" where
  "guard_step (Fail now identifier) bf = recordFailedAttempt now identifier bf"
| "guard_step (Clear identifier) bf = resetAttempts identifier bf"
| "guard_step (Check now identifier) bf = snd (BruteForceProtection_isAllowed now identifier bf)"

text \<open>
  Three readings of a run, for an identifier \<open>x\<close>: the number of its failures; the time
  of its latest failure (\<open>tlast\<close> when the run has none); and whether the run neither
  resets \<open>x\<close> nor makes a check later than \<open>d\<close> after the latest failure of \<open>x\<close>.
\<close>

fun failures :: "string \<Rightarrow> guard_op list \<Rightarrow> nat" where
  "failures x [] = 0"
| "failures x (Fail t y # ops) = (if y = x then Suc (failures x ops) else failures x ops)"
| "failures x (Clear y # ops) = failures x ops"
| "failures x (Check t y # ops) = failures x ops"

fun latest_failure :: "string \<Rightarrow> int \<Rightarrow> guard_op list \<Rightarrow> int" where
  "latest_failure x tlast [] = tlast"
| "latest_failure x tlast (Fail t y # ops) = latest_failure x (if y = x then t else tlast) ops"
| "latest_failure x tlast (Clear y # ops) = latest_failure x tlast ops"
| "latest_failure x tlast (Check t y # ops) = latest_failure x tlast ops"

fun within_lockout :: "int \<Rightarrow> string \<Rightarrow> int \<Rightarrow> guard_op list \<Rightarrow> bool" where
  "within_lockout d x tlast [] = True"
| "within_lockout d x tlast (Fail t y # ops) = within_lockout d x (if y = x then t else tlast) ops"
| "within_lockout d x tlast (Clear y # ops) = (y \<noteq> x \<and> within_lockout d x tlast ops)"
| "within_lockout d x tlast (Check t y # ops) = (t - tlast \<le> d \<and> within_lockout d x tlast ops)"


subsection \<open>SessionManager (\<^verbatim>\<open>src/auth/sessionManagement.ts\<close>)\<close>

text \<open>
  \<^verbatim>\<open>createSession\<close> calls \<^verbatim>\<open>this.rateLimiter.tryAcquire(userId)\<close>. A method call on a
  JavaScript object looks the member up by name and throws a \<^verbatim>\<open>TypeError\<close> when the
  name resolves to no function. The members that class \<^verbatim>\<open>RateLimiter\<close> declares are
  listed in \<open>RateLimiter_members\<close>, in the order of the source; \<open>RateLimiter_call\<close> is the
  call of one of them with a string argument.
\<close>

datatype js_error = TypeError | Error string

datatype js_value = Boolean bool | Undefined | Function

datatype RateLimiter_member = GetClientIdentifier | Cleanup | IsAllowed | Middleware | Reset

definition RateLimiter_members :: "(string \<times> RateLimiter_member) list" where
  "RateLimiter_members =
     [(''getClientIdentifier'', GetClientIdentifier), (''cleanup'', Cleanup),
      (''isAllowed'', IsAllowed), (''middleware'', Middleware), (''reset'', Reset)]"

fun truthy :: "js_value \<Rightarrow> bool" where
  "truthy (Boolean b) = b"
| "truthy Undefined = False"
| "truthy Function = True"

text \<open>
  \<^verbatim>\<open>getClientIdentifier(req)\<close> reads \<^verbatim>\<open>req.connection.remoteAddress\<close>; on a string
  argument \<^verbatim>\<open>req.ip\<close> and \<^verbatim>\<open>req.connection\<close> are undefined and the read throws.
\<close>

fun RateLimiter_call ::
  "RateLimiter_member \<Rightarrow> int \<Rightarrow> string \<Rightarrow> RateLimiter \<Rightarrow> (js_error + js_value) \<times> RateLimiter" where
  "RateLimiter_call GetClientIdentifier now arg rl = (Inl TypeError, rl)"
| "RateLimiter_call Cleanup now arg rl =
     (Inr Undefined, rl\<lparr>storage := RateLimiter_cleanup now (storage rl)\<rparr>)"
| "RateLimiter_call IsAllowed now arg rl =
     (let (b, rl') = RateLimiter_isAllowed now arg rl in (Inr (Boolean b), rl'))"
| "RateLimiter_call Middleware now arg rl = (Inr Function, rl)"
| "RateLimiter_call Reset now arg rl = (Inr Undefined, RateLimiter_reset arg rl)"

record 'v SessionManager =
  store :: "'v sessions"
  rateLimiter :: RateLimiter
  cleanupIntervalMs :: int

text \<open>
  The constructor reads \<^verbatim>\<open>getConfig()\<close> into a local that it never uses; the limiter
  rule and the period of the \<^verbatim>\<open>setInterval\<close> cleanup timer are literals. Nothing else
  refers to the literal array and its rule object, so this limiter is kept by value.
\<close>

definition SessionManager_new :: "SecurityConfig \<Rightarrow> 'v sessions \<Rightarrow> 'v SessionManager" where
  "SessionManager_new config st =
     \<lparr>store = st,
      rateLimiter = RateLimiter_new config [\<lparr>windowMs = 60000, maxRequests = 10\<rparr>],
      cleanupIntervalMs = 300000\<rparr>"

definition createSession ::
  "SecurityConfig \<Rightarrow> string \<Rightarrow> int \<Rightarrow> string \<Rightarrow> (string \<rightharpoonup> 'v) \<Rightarrow> 'v SessionManager
     \<Rightarrow> (js_error + 'v Session) \<times> 'v SessionManager" where
  "createSession config sessionId now uid d mgr =
     (case map_of RateLimiter_members ''tryAcquire'' of
        None \<Rightarrow> (Inl TypeError, mgr)
      | Some member \<Rightarrow>
          (case RateLimiter_call member now uid (rateLimiter mgr) of
             (Inl e, rl') \<Rightarrow> (Inl e, mgr\<lparr>rateLimiter := rl'\<rparr>)
           | (Inr acquired, rl') \<Rightarrow>
               if \<not> truthy acquired
               then (Inl (Error ''Rate limit exceeded for session creation''),
                     mgr\<lparr>rateLimiter := rl'\<rparr>)
               else (let (session, st') =
                           SessionStore_create config sessionId now uid d (store mgr)
                     in (Inr session, mgr\<lparr>store := st', rateLimiter := rl'\<rparr>))))"

definition getSession ::
  "int \<Rightarrow> string \<Rightarrow> 'v SessionManager \<Rightarrow> 'v Session option \<times> 'v SessionManager" where
  "getSession now sessionId mgr =
     (let (r, st') = SessionStore_get now sessionId (store mgr) in (r, mgr\<lparr>store := st'\<rparr>))"

definition updateSession ::
  "int \<Rightarrow> string \<Rightarrow> (string \<rightharpoonup> 'v) \<Rightarrow> 'v SessionManager \<Rightarrow> 'v SessionManager" where
  "updateSession now sessionId d mgr =
     mgr\<lparr>store := SessionStore_update now sessionId d (store mgr)\<rparr>"

definition deleteSession :: "string \<Rightarrow> 'v SessionManager \<Rightarrow> 'v SessionManager" where
  "deleteSession sessionId mgr = mgr\<lparr>store := SessionStore_delete sessionId (store mgr)\<rparr>"

definition refreshSession ::
  "SecurityConfig \<Rightarrow> int \<Rightarrow> string \<Rightarrow> 'v SessionManager \<Rightarrow> 'v SessionManager" where
  "refreshSession config now sessionId mgr =
     mgr\<lparr>store := SessionStore_refresh config now sessionId (store mgr)\<rparr>"

text \<open>
  The operations that the session state machine ranges over, each with the clock
  reading of its call, and a run of them on the store.
\<close>

datatype 'v store_op =
    Get int string
  | Update int string "string \<rightharpoonup> 'v"
  | Refresh SecurityConfig int string
  | CleanupOp int
  | Delete string

fun store_step :: "'v store_op \<Rightarrow> 'v sessions \<Rightarrow> 'v sessions" where
  "store_step (Get now sessionId) st = snd (SessionStore_get now sessionId st)"
| "store_step (Update now sessionId d) st = SessionStore_update now sessionId d st"
| "store_step (Refresh config now sessionId) st = SessionStore_refresh config now sessionId st"
| "store_step (CleanupOp now) st = SessionStore_cleanup now st"
| "store_step (Delete sessionId) st = SessionStore_delete sessionId st"

subsection \<open>Objects kept by reference\<close>

text \<open>
  \<^verbatim>\<open>getConfig()\<close> returns the live object \<^verbatim>\<open>this.config\<close> of the configuration manager,
  and the constructor of \<^verbatim>\<open>RateLimiter\<close> keeps the array it is given, or a new array
  around the \<^verbatim>\<open>defaultRateLimit\<close> object of that configuration. Rule objects and arrays
  of rule objects therefore live at addresses; a \<open>World\<close> holds them, the next unused
  address, and the live configuration.

  \<open>LiveConfig\<close> has the fields of \<^verbatim>\<open>SecurityConfig\<close> that the session code, the rate
  limiter and \<^verbatim>\<open>validateConfig\<close> read; \<open>minLength\<close> is \<^verbatim>\<open>passwordPolicy.minLength\<close>, and
  \<open>defaultRateLimit'\<close> is the address of the rule object (the primes tell the two fields
  from those of the by-value record).
\<close>

record LiveConfig =
  jwtSecret :: string
  encryptionSecret :: string
  bcryptSaltRounds :: int
  minLength :: int
  sessionTTL' :: int
  defaultRateLimit' :: nat

record World =
  rule_at :: "nat \<Rightarrow> RateLimitRule"
  array_at :: "nat \<Rightarrow> nat list"
  fresh :: nat
  liveConfig :: LiveConfig

text \<open>\<^verbatim>\<open>getConfig()\<close>, read by value at this moment.\<close>

definition getConfig :: "World \<Rightarrow> SecurityConfig" where
  "getConfig w =
     \<lparr>sessionTTL = sessionTTL' (liveConfig w),
      defaultRateLimit = rule_at w (defaultRateLimit' (liveConfig w))\<rparr>"

text \<open>
  The argument of \<^verbatim>\<open>updateConfig\<close> (a \<^verbatim>\<open>Partial<SecurityConfig>\<close>): \<open>None\<close> for a key
  that is left out. \<open>spread\<close> is \<^verbatim>\<open>{ ...this.config, ...newConfig }\<close>; the parameter
  \<open>node_env\<close> is \<^verbatim>\<open>process.env.NODE_ENV\<close>; \<open>validateConfig\<close> returns the message of the
  error it throws. \<^verbatim>\<open>updateConfig\<close> installs a new configuration object and writes to
  no object that exists.
\<close>

record ConfigUpdate =
  new_jwtSecret :: "string option"
  new_encryptionSecret :: "string option"
  new_bcryptSaltRounds :: "int option"
  new_minLength :: "int option"
  new_sessionTTL :: "int option"
  new_defaultRateLimit :: "nat option"

definition spread :: "LiveConfig \<Rightarrow> ConfigUpdate \<Rightarrow> LiveConfig" where
  "spread c u =
     \<lparr>jwtSecret = (case new_jwtSecret u of None \<Rightarrow> jwtSecret c | Some v \<Rightarrow> v),
      encryptionSecret = (case new_encryptionSecret u of None \<Rightarrow> encryptionSecret c | Some v \<Rightarrow> v),
      bcryptSaltRounds = (case new_bcryptSaltRounds u of None \<Rightarrow> bcryptSaltRounds c | Some v \<Rightarrow> v),
      minLength = (case new_minLength u of None \<Rightarrow> minLength c | Some v \<Rightarrow> v),
      sessionTTL' = (case new_sessionTTL u of None \<Rightarrow> sessionTTL' c | Some v \<Rightarrow> v),
      defaultRateLimit' = (case new_defaultRateLimit u of None \<Rightarrow> defaultRateLimit' c | Some v \<Rightarrow> v)\<rparr>"

definition validateConfig :: "string option \<Rightarrow> LiveConfig \<Rightarrow> string option" where
  "validateConfig node_env c =
     (if node_env \<noteq> Some ''test'' \<and> (jwtSecret c = [] \<or> jwtSecret c = ''your-secret-key'')
      then Some ''JWT secret must be set to a secure value''
      else if node_env \<noteq> Some ''test'' \<and>
              (encryptionSecret c = [] \<or> encryptionSecret c = ''your-encryption-secret-key'')
      then Some ''Encryption secret must be set to a secure value''
      else if bcryptSaltRounds c < 10
      then Some ''bcryptSaltRounds should be at least 10''
      else if minLength c < 8
      then Some ''Minimum password length should be at least 8 characters''
      else None)"

definition updateConfig :: "string option \<Rightarrow> ConfigUpdate \<Rightarrow> World \<Rightarrow> (js_error + unit) \<times> World" where
  "updateConfig node_env newConfig w =
     (let updatedConfig = spread (liveConfig w) newConfig
      in case validateConfig node_env updatedConfig of
           Some message \<Rightarrow> (Inl (Error (''Configuration update failed: '' @ message)), w)
         | None \<Rightarrow> (Inr (), w\<lparr>liveConfig := updatedConfig\<rparr>))"

text \<open>
  An assignment by the caller to the fields of the rule object at an address, such as
  \<^verbatim>\<open>getConfig().defaultRateLimit.maxRequests = 0\<close>.
\<close>

definition assign_rule :: "nat \<Rightarrow> RateLimitRule \<Rightarrow> World \<Rightarrow> World" where
  "assign_rule a r w = w\<lparr>rule_at := (rule_at w)(a := r)\<rparr>"

text \<open>
  The \<^verbatim>\<open>RateLimiter\<close> object: its own counters and the address of its rules array.
  \<^verbatim>\<open>this.rules = rules.length > 0 ? rules : [getConfig().defaultRateLimit]\<close> keeps
  the caller's array when it has an element and allocates a one-element array
  otherwise. \<open>RateLimiter_seen\<close> is the limiter that a call meets in a given world, and
  the operations on the object are the operations above on what is seen.
\<close>

record RateLimiter_object =
  counters :: storage
  rules_ref :: nat

definition default_rules :: "World \<Rightarrow> RateLimiter_object \<times> World" where
  "default_rules w =
     (\<lparr>counters = DAList.empty, rules_ref = fresh w\<rparr>,
      w\<lparr>array_at := (array_at w)(fresh w := [defaultRateLimit' (liveConfig w)]),
        fresh := Suc (fresh w)\<rparr>)"

definition RateLimiter_constructor :: "nat option \<Rightarrow> World \<Rightarrow> RateLimiter_object \<times> World" where
  "RateLimiter_constructor arg w =
     (case arg of
        None \<Rightarrow> default_rules w
      | Some a \<Rightarrow>
          if length (array_at w a) > 0
          then (\<lparr>counters = DAList.empty, rules_ref = a\<rparr>, w)
          else default_rules w)"

definition RateLimiter_seen :: "World \<Rightarrow> RateLimiter_object \<Rightarrow> RateLimiter" where
  "RateLimiter_seen w obj =
     \<lparr>storage = counters obj, rules = map (rule_at w) (array_at w (rules_ref obj))\<rparr>"

definition RateLimiter_object_isAllowed ::
  "World \<Rightarrow> int \<Rightarrow> string \<Rightarrow> RateLimiter_object \<Rightarrow> bool \<times> RateLimiter_object" where
  "RateLimiter_object_isAllowed w now clientId obj =
     (let (isAllowed, rl) = RateLimiter_isAllowed now clientId (RateLimiter_seen w obj)
      in (isAllowed, obj\<lparr>counters := storage rl\<rparr>))"

definition RateLimiter_object_reset :: "World \<Rightarrow> string \<Rightarrow> RateLimiter_object \<Rightarrow> RateLimiter_object" where
  "RateLimiter_object_reset w clientId obj =
     obj\<lparr>counters := storage (RateLimiter_reset clientId (RateLimiter_seen w obj))\<rparr>"

subsection \<open>Example values\<close>

text \<open>A configuration, a session that expires at \<open>1000\<close>, and the store that holds it.\<close>

definition config0 :: SecurityConfig where
  "config0 = \<lparr>sessionTTL = 1000,
              defaultRateLimit = \<lparr>windowMs = 900000, maxRequests = 100\<rparr>\<rparr>"

definition session0 :: "int Session" where
  "session0 = \<lparr>id' = ''ab'', userId = ''u1'', createdAt = 0, expiresAt = 1000,
               data = [''role'' \<mapsto> 1]\<rparr>"

definition sessions0 :: "int sessions" where
  "sessions0 = DAList.update ''ab'' session0 DAList.empty"

text \<open>
  The limiter of the test suite (two requests per second), and three lockout guards:
  the one of the test suite, one that allows no attempt at all, and one that locks on the
  first failure.
\<close>

definition rule0 :: RateLimitRule where
  "rule0 = \<lparr>windowMs = 1000, maxRequests = 2\<rparr>"

definition limiter0 :: RateLimiter where
  "limiter0 = RateLimiter_new config0 [rule0]"

definition guard0 :: BruteForceProtection where
  "guard0 = BruteForceProtection_new (Some 3) (Some 1000)"

definition guard_zero :: BruteForceProtection where
  "guard_zero = BruteForceProtection_new (Some 0) (Some 1000)"

definition guard_one :: BruteForceProtection where
  "guard_one = BruteForceProtection_new (Some 1) (Some 10)"

text \<open>
  A run in which checks and failures of two identifiers alternate. The third failure of
  \<open>127.0.0.1\<close> comes between the two parts, at \<open>9000\<close>; in the second part every check
  is made within \<open>1000\<close> of its latest failure.
\<close>

definition trace_pre :: "guard_op list" where
  "trace_pre = [Check 1 ''127.0.0.1'', Fail 1 ''127.0.0.1'', Check 5000 ''127.0.0.1'',
                Fail 5000 ''127.0.0.1'', Fail 5001 ''10.0.0.7'', Check 9000 ''10.0.0.7'']"

definition trace_post :: "guard_op list" where
  "trace_post = [Check 9001 ''127.0.0.1'', Check 9500 ''10.0.0.7'', Fail 9600 ''127.0.0.1'',
                 Clear ''10.0.0.7'', Check 10600 ''127.0.0.1'']"

text \<open>
  A world whose configuration has \<open>sessionTTL = 1000\<close> and the default rule
  \<open>{900000, 100}\<close> at address \<open>0\<close>, and two configuration updates.
\<close>

definition world0 :: World where
  "world0 =
     \<lparr>rule_at = (\<lambda>a. \<lparr>windowMs = 900000, maxRequests = 100\<rparr>),
      array_at = (\<lambda>a. []),
      fresh = 1,
      liveConfig = \<lparr>jwtSecret = ''a-long-secret'', encryptionSecret = ''another-secret'',
                    bcryptSaltRounds = 10, minLength = 8, sessionTTL' = 1000,
                    defaultRateLimit' = 0\<rparr>\<rparr>"

definition update_ttl :: ConfigUpdate where
  "update_ttl = \<lparr>new_jwtSecret = None, new_encryptionSecret = None, new_bcryptSaltRounds = None,
                 new_minLength = None, new_sessionTTL = Some 5000, new_defaultRateLimit = None\<rparr>"

definition update_rule :: ConfigUpdate where
  "update_rule = \<lparr>new_jwtSecret = None, new_encryptionSecret = None, new_bcryptSaltRounds = None,
                  new_minLength = None, new_sessionTTL = None, new_defaultRateLimit = Some 7\<rparr>"

section \<open>Properties\<close>

subsection \<open>Tables\<close>

lemma lookup_impl_of: "DAList.lookup m k = Some v \<longleftrightarrow> (k, v) \<in> set (DAList.impl_of m)"
  by (simp add: DAList.lookup.rep_eq)

lemma lookup_fold_delete:
  "DAList.lookup (fold (\<lambda>(k, v) m. if P k v then DAList.delete k m else m) xs m0) k' =
     (if \<exists>v. (k', v) \<in> set xs \<and> P k' v then None else DAList.lookup m0 k')"
  by (induction xs arbitrary: m0) (auto split: if_splits)

text \<open>
  A loop that walks the entries of a table and deletes those that satisfy a test leaves
  exactly the other entries, in their order.
\<close>

lemma impl_of_fold_delete:
  "DAList.impl_of (fold (\<lambda>(k, v) m. if P k v then DAList.delete k m else m) xs m0) =
     filter (\<lambda>(k', v'). \<not> (\<exists>v. (k', v) \<in> set xs \<and> P k' v)) (DAList.impl_of m0)"
proof (induction xs arbitrary: m0)
  case Nil
  then show ?case by simp
next
  case (Cons x xs)
  obtain k v where x: "x = (k, v)" by (cases x)
  show ?case
    unfolding x
    by (auto simp: Cons.IH DAList.delete.rep_eq AList.delete_eq intro!: filter_cong)
qed

lemma impl_of_sweep:
  "DAList.impl_of (fold (\<lambda>(k, v) m. if P k v then DAList.delete k m else m) (DAList.impl_of m) m) =
     filter (\<lambda>(k, v). \<not> P k v) (DAList.impl_of m)"
proof -
  have d: "distinct (map fst (DAList.impl_of m))" by simp
  have "(\<exists>v'. (k, v') \<in> set (DAList.impl_of m) \<and> P k v') = P k v"
    if "(k, v) \<in> set (DAList.impl_of m)" for k v
    using eq_key_imp_eq_value[OF d that] that by blast
  then have "\<And>x. x \<in> set (DAList.impl_of m) \<Longrightarrow>
          (case x of (k', v') \<Rightarrow> \<not> (\<exists>v. (k', v) \<in> set (DAList.impl_of m) \<and> P k' v)) =
          (case x of (k, v) \<Rightarrow> \<not> P k v)"
    by (auto simp del: not_ex)
  then show ?thesis
    unfolding impl_of_fold_delete by (rule filter_cong[OF refl])
qed

lemma lookup_sweep:
  "DAList.lookup (fold (\<lambda>(k, v) m. if P k v then DAList.delete k m else m) (DAList.impl_of m) m) k' =
     (case DAList.lookup m k' of None \<Rightarrow> None | Some v \<Rightarrow> if P k' v then None else Some v)"
  by (auto simp: lookup_fold_delete lookup_impl_of[symmetric] split: option.splits)

subsection \<open>The session store\<close>

text \<open>
  C2. \<^verbatim>\<open>get(id)\<close> returns a record exactly when that record is stored under the id and
  \<open>now \<le> expiresAt\<close>. A stored record with \<open>expiresAt < now\<close> is deleted and the result is
  absent; in every other case the store is left as it was. A session with
  \<open>expiresAt = 1000\<close> is returned by a read at \<open>1000\<close>; a read at \<open>1001\<close> finds it absent
  and evicts it.
\<close>

theorem SessionStore_get_spec:
  "SessionStore_get now sessionId sessions = (r, sessions') \<Longrightarrow>
     (\<forall>s. r = Some s \<longleftrightarrow> DAList.lookup sessions sessionId = Some s \<and> now \<le> expiresAt s) \<and>
     (\<forall>s. DAList.lookup sessions sessionId = Some s \<and> expiresAt s < now \<longrightarrow>
          r = None \<and> sessions' = DAList.delete sessionId sessions \<and>
          DAList.lookup sessions' sessionId = None) \<and>
     (DAList.lookup sessions sessionId = None \<or> r \<noteq> None \<longrightarrow> sessions' = sessions)"
  by (auto simp: SessionStore_get_def SessionStore_delete_def split: option.splits if_splits)

theorem SessionStore_get_spec_witness:
  "fst (SessionStore_get 1000 ''ab'' sessions0) = Some session0 \<and>
   snd (SessionStore_get 1000 ''ab'' sessions0) = sessions0 \<and>
   fst (SessionStore_get 1001 ''ab'' sessions0) = None \<and>
   DAList.lookup (snd (SessionStore_get 1001 ''ab'' sessions0)) ''ab'' = None"
proof -
  have look: "DAList.lookup sessions0 ''ab'' = Some session0"
    by (simp add: sessions0_def)
  have e: "expiresAt session0 = 1000"
    by (simp add: session0_def)
  have a: "SessionStore_get 1000 ''ab'' sessions0 =
             (fst (SessionStore_get 1000 ''ab'' sessions0),
              snd (SessionStore_get 1000 ''ab'' sessions0))"
    by simp
  have b: "SessionStore_get 1001 ''ab'' sessions0 =
             (fst (SessionStore_get 1001 ''ab'' sessions0),
              snd (SessionStore_get 1001 ''ab'' sessions0))"
    by simp
  from SessionStore_get_spec [OF a] SessionStore_get_spec [OF b] look e
  show ?thesis by auto
qed

text \<open>
  C7, as stated, fails: \<^verbatim>\<open>update\<close> goes through \<^verbatim>\<open>get\<close>, so on an expired session it is
  not a no-op: it evicts the record.
\<close>

theorem SessionStore_update_expired_counterexample:
  "DAList.lookup sessions0 ''ab'' = Some session0 \<and> expiresAt session0 < 1001 \<and>
   SessionStore_update 1001 ''ab'' [''k'' \<mapsto> 2] sessions0 \<noteq> sessions0"
proof -
  have "DAList.lookup (SessionStore_update 1001 ''ab'' [''k'' \<mapsto> 2] sessions0) ''ab'' = None"
    by (simp add: SessionStore_update_def SessionStore_get_def SessionStore_delete_def
          sessions0_def session0_def)
  moreover have "DAList.lookup sessions0 ''ab'' = Some session0"
    by (simp add: sessions0_def)
  moreover have "expiresAt session0 < 1001"
    by (simp add: session0_def)
  ultimately show ?thesis by auto
qed

text \<open>
  C7, amended. \<^verbatim>\<open>update(id, partialData)\<close> leaves the store as it is when no record is
  stored under the id; when the stored record is expired it deletes that record and
  merges nothing; otherwise it replaces the record by one whose \<open>data\<close> is the shallow
  merge (a key of \<open>partialData\<close> wins, every other key keeps its value) and whose \<open>id\<close>,
  \<open>userId\<close>, \<open>createdAt\<close> and \<open>expiresAt\<close> are unchanged. The records under other ids are
  never touched.
\<close>

theorem SessionStore_update_spec:
  "(DAList.lookup sessions sessionId = None \<longrightarrow>
      SessionStore_update now sessionId d sessions = sessions) \<and>
   (\<forall>s. DAList.lookup sessions sessionId = Some s \<and> expiresAt s < now \<longrightarrow>
      SessionStore_update now sessionId d sessions = DAList.delete sessionId sessions) \<and>
   (\<forall>s. DAList.lookup sessions sessionId = Some s \<and> now \<le> expiresAt s \<longrightarrow>
      (\<exists>s'. SessionStore_update now sessionId d sessions = DAList.update sessionId s' sessions \<and>
            id' s' = id' s \<and> userId s' = userId s \<and> createdAt s' = createdAt s \<and>
            expiresAt s' = expiresAt s \<and>
            (\<forall>k. data s' k = (case d k of Some v \<Rightarrow> Some v | None \<Rightarrow> data s k)))) \<and>
   (\<forall>k. k \<noteq> sessionId \<longrightarrow>
      DAList.lookup (SessionStore_update now sessionId d sessions) k = DAList.lookup sessions k)"
  by (auto simp: SessionStore_update_def SessionStore_get_def SessionStore_delete_def map_add_def
           split: option.splits if_splits)

theorem SessionStore_update_spec_witness:
  "SessionStore_update 1001 ''ab'' [''k'' \<mapsto> 2] sessions0 = DAList.delete ''ab'' sessions0 \<and>
   SessionStore_update 5 ''zz'' [''k'' \<mapsto> 2] sessions0 = sessions0 \<and>
   map_option data (DAList.lookup (SessionStore_update 1000 ''ab'' [''k'' \<mapsto> 2] sessions0) ''ab'') =
     Some [''role'' \<mapsto> 1, ''k'' \<mapsto> 2]"
proof -
  have look: "DAList.lookup sessions0 ''ab'' = Some session0" "DAList.lookup sessions0 ''zz'' = None"
    by (simp_all add: sessions0_def)
  have e: "expiresAt session0 = 1000" "data session0 = [''role'' \<mapsto> 1]"
    by (simp_all add: session0_def)
  from SessionStore_update_spec [of sessions0 "''ab''" 1001 "[''k'' \<mapsto> 2]"]
       SessionStore_update_spec [of sessions0 "''zz''" 5 "[''k'' \<mapsto> 2]"]
       SessionStore_update_spec [of sessions0 "''ab''" 1000 "[''k'' \<mapsto> 2]"]
       look e
  show ?thesis by (auto simp: fun_eq_iff)
qed

text \<open>
  C8. \<^verbatim>\<open>cleanup()\<close> leaves exactly the records with \<open>expiresAt \<ge> now\<close>, each unchanged
  and in its place; every record with \<open>expiresAt < now\<close> is gone.
\<close>

theorem SessionStore_cleanup_spec:
  "DAList.impl_of (SessionStore_cleanup now sessions) =
     filter (\<lambda>(sessionId, session). \<not> expiresAt session < now) (DAList.impl_of sessions) \<and>
   DAList.lookup (SessionStore_cleanup now sessions) k =
     (case DAList.lookup sessions k of
        None \<Rightarrow> None
      | Some s \<Rightarrow> if expiresAt s < now then None else Some s)"
  unfolding SessionStore_cleanup_def
  by (simp add: impl_of_sweep lookup_sweep)

subsection \<open>The session state machine\<close>

text \<open>
  An id that is not in the store stays out of it under every run of \<^verbatim>\<open>get\<close>,
  \<^verbatim>\<open>update\<close>, \<^verbatim>\<open>refresh\<close>, \<^verbatim>\<open>cleanup\<close> and \<^verbatim>\<open>delete\<close>: only \<^verbatim>\<open>create\<close> adds
  a key. So a deleted or evicted session is never returned again.
\<close>

lemma store_step_absent:
  "DAList.lookup st k = None \<Longrightarrow> DAList.lookup (store_step op st) k = None"
proof (cases op)
  case (Get now sid)
  then show "DAList.lookup st k = None \<Longrightarrow> ?thesis"
    by (auto simp: SessionStore_get_def SessionStore_delete_def split: option.splits)
next
  case (Update now sid d)
  then show "DAList.lookup st k = None \<Longrightarrow> ?thesis"
    by (auto simp: SessionStore_update_def SessionStore_get_def SessionStore_delete_def
          DAList.lookup_update split: option.splits)
next
  case (Refresh config now sid)
  then show "DAList.lookup st k = None \<Longrightarrow> ?thesis"
    by (auto simp: SessionStore_refresh_def DAList.lookup_update split: option.splits)
next
  case (CleanupOp now)
  then show "DAList.lookup st k = None \<Longrightarrow> ?thesis"
    by (simp add: SessionStore_cleanup_def lookup_sweep)
next
  case (Delete sid)
  then show "DAList.lookup st k = None \<Longrightarrow> ?thesis"
    by (simp add: SessionStore_delete_def)
qed

lemma absent_stays_absent:
  "DAList.lookup st k = None \<Longrightarrow> DAList.lookup (fold store_step ops st) k = None"
  by (induction ops arbitrary: st) (simp_all add: store_step_absent)

lemma deleted_never_returns:
  "fst (SessionStore_get now k (fold store_step ops (SessionStore_delete k st))) = None"
proof -
  have "DAList.lookup (fold store_step ops (SessionStore_delete k st)) k = None"
    by (rule absent_stays_absent) (simp add: SessionStore_delete_def)
  then show ?thesis
    by (simp add: SessionStore_get_def)
qed

text \<open>
  C6 fails on the code for a session that has expired but has not been evicted yet:
  \<^verbatim>\<open>refresh\<close> reads the table directly, without the expiry test that \<^verbatim>\<open>update\<close>
  inherits from \<^verbatim>\<open>get\<close>, and stamps a new \<open>expiresAt\<close>. The session below expired at
  \<open>1000\<close>; at \<open>5000\<close> \<^verbatim>\<open>getSession\<close> reports it absent, yet after
  \<^verbatim>\<open>refreshSession\<close> at \<open>5000\<close> it is returned again, valid until \<open>6000\<close>.
\<close>

theorem refreshSession_revives_expired:
  "DAList.lookup sessions0 ''ab'' = Some session0 \<and> expiresAt session0 < 5000 \<and>
   fst (getSession 5000 ''ab'' (SessionManager_new config0 sessions0)) = None \<and>
   fst (getSession 5000 ''ab''
          (refreshSession config0 5000 ''ab'' (SessionManager_new config0 sessions0))) =
     Some (session0\<lparr>expiresAt := 6000\<rparr>)"
  by (simp add: getSession_def refreshSession_def SessionManager_new_def SessionStore_get_def
        SessionStore_refresh_def SessionStore_delete_def sessions0_def session0_def config0_def
        split_def)

subsection \<open>Session creation\<close>

text \<open>
  C1 fails on the code: class \<^verbatim>\<open>RateLimiter\<close> declares no member \<^verbatim>\<open>tryAcquire\<close>, so
  the call in \<^verbatim>\<open>createSession\<close> throws a \<^verbatim>\<open>TypeError\<close> on every input, before any
  counter is read and before the store is touched. No creation succeeds, and the error
  is not the rate-limit error.
\<close>

theorem createSession_throws_TypeError:
  "createSession config sessionId now uid d mgr = (Inl TypeError, mgr)"
  by (simp add: createSession_def RateLimiter_members_def)

subsection \<open>Storage keys of the rate limiter\<close>

lemma digit_char_cases:
  "d < 10 \<Longrightarrow> d = 0 \<or> d = 1 \<or> d = 2 \<or> d = 3 \<or> d = 4 \<or> d = 5 \<or> d = 6 \<or> d = 7 \<or> d = 8 \<or> d = (9::nat)"
  by arith

lemma digit_char_not_colon: "d < 10 \<Longrightarrow> digit_char d \<noteq> CHR '':''"
  using digit_char_cases[of d] by (auto simp: digit_char_def)

lemma digit_char_not_minus: "d < 10 \<Longrightarrow> digit_char d \<noteq> CHR ''-''"
  using digit_char_cases[of d] by (auto simp: digit_char_def)

lemma digit_char_inj: "d < 10 \<Longrightarrow> e < 10 \<Longrightarrow> digit_char d = digit_char e \<Longrightarrow> d = e"
  using digit_char_cases[of d] digit_char_cases[of e] by (auto simp: digit_char_def)

lemma string_of_nat_no_colon: "CHR '':'' \<notin> set (string_of_nat n)"
proof (induction n rule: string_of_nat.induct)
  case (1 n)
  show ?case
  proof (cases "n < 10")
    case True
    then show ?thesis
      using digit_char_not_colon[of n] by (subst string_of_nat.simps) auto
  next
    case False
    then show ?thesis
      using 1 digit_char_not_colon[of "n mod 10"] by (subst string_of_nat.simps) auto
  qed
qed

lemma string_of_nat_no_minus: "CHR ''-'' \<notin> set (string_of_nat n)"
proof (induction n rule: string_of_nat.induct)
  case (1 n)
  show ?case
  proof (cases "n < 10")
    case True
    then show ?thesis
      using digit_char_not_minus[of n] by (subst string_of_nat.simps) auto
  next
    case False
    then show ?thesis
      using 1 digit_char_not_minus[of "n mod 10"] by (subst string_of_nat.simps) auto
  qed
qed

lemma string_of_nat_nonempty: "string_of_nat n \<noteq> []"
  by (subst string_of_nat.simps) auto

lemma string_of_nat_inj: "string_of_nat m = string_of_nat n \<Longrightarrow> m = n"
proof (induction m arbitrary: n rule: string_of_nat.induct)
  case (1 m)
  show ?case
  proof (cases "m < 10")
    case m: True
    show ?thesis
    proof (cases "n < 10")
      case True
      with m 1(2) show ?thesis
        by (subst (asm) string_of_nat.simps, subst (asm) (2) string_of_nat.simps)
           (auto dest: digit_char_inj)
    next
      case False
      with m 1(2) show ?thesis
        using string_of_nat_nonempty[of "n div 10"]
        by (subst (asm) string_of_nat.simps, subst (asm) (2) string_of_nat.simps) auto
    qed
  next
    case m: False
    show ?thesis
    proof (cases "n < 10")
      case True
      with m 1(2) show ?thesis
        using string_of_nat_nonempty[of "m div 10"]
        by (subst (asm) string_of_nat.simps, subst (asm) (2) string_of_nat.simps) auto
    next
      case False
      with m 1(2) have "string_of_nat (m div 10) = string_of_nat (n div 10)"
        and "digit_char (m mod 10) = digit_char (n mod 10)"
        by (subst (asm) string_of_nat.simps, subst (asm) (2) string_of_nat.simps, auto)+
      then have "m div 10 = n div 10" "m mod 10 = n mod 10"
        using 1(1)[OF m] digit_char_inj[of "m mod 10" "n mod 10"] by auto
      then show ?thesis
        by (metis div_mult_mod_eq)
    qed
  qed
qed

lemma Number_toString_no_colon: "CHR '':'' \<notin> set (Number_toString i)"
  by (simp add: Number_toString_def string_of_nat_no_colon)

lemma Number_toString_inj: "Number_toString i = Number_toString j \<Longrightarrow> i = j"
proof -
  assume a: "Number_toString i = Number_toString j"
  show ?thesis
  proof (cases "i < 0")
    case i: True
    show ?thesis
    proof (cases "j < 0")
      case True
      with i a have "nat (- i) = nat (- j)"
        by (auto simp: Number_toString_def dest: string_of_nat_inj)
      with i True show ?thesis by simp
    next
      case False
      with i a string_of_nat_no_minus[of "nat j"] show ?thesis
        by (auto simp: Number_toString_def) (metis list.set_intros(1))
    qed
  next
    case i: False
    show ?thesis
    proof (cases "j < 0")
      case True
      with i a string_of_nat_no_minus[of "nat i"] show ?thesis
        by (auto simp: Number_toString_def)
    next
      case False
      with i a have "nat i = nat j"
        by (auto simp: Number_toString_def dest: string_of_nat_inj)
      with i False show ?thesis by simp
    qed
  qed
qed

lemma append_colon_eq:
  assumes "a @ CHR '':'' # x = b @ CHR '':'' # y" "CHR '':'' \<notin> set x" "CHR '':'' \<notin> set y"
  shows "a = b \<and> x = y"
proof -
  have "rev x @ CHR '':'' # rev a = rev y @ CHR '':'' # rev b"
    using assms(1) by (metis rev_append rev.simps(2) append.assoc append_Cons append_Nil)
  then have "takeWhile (\<lambda>c. c \<noteq> CHR '':'') (rev x @ CHR '':'' # rev a) =
             takeWhile (\<lambda>c. c \<noteq> CHR '':'') (rev y @ CHR '':'' # rev b)"
    by simp
  moreover have "takeWhile (\<lambda>c. c \<noteq> CHR '':'') (rev x) = rev x"
    "takeWhile (\<lambda>c. c \<noteq> CHR '':'') (rev y) = rev y"
    using assms(2,3) by auto
  ultimately have "rev x = rev y"
    by (simp add: takeWhile_tail)
  then show ?thesis using assms(1) by simp
qed

lemma RateLimiter_key_inj:
  "RateLimiter_key a r = RateLimiter_key b r' \<longleftrightarrow> a = b \<and> windowMs r = windowMs r'"
  using append_colon_eq[of a "Number_toString (windowMs r)" b "Number_toString (windowMs r')"]
  by (auto simp: RateLimiter_key_def Number_toString_no_colon dest: Number_toString_inj)

lemma key_c: "RateLimiter_key ''c'' rule0 = ''c:1000''"
  by (simp add: RateLimiter_key_def Number_toString_def string_of_nat.simps digit_char_def rule0_def)

subsection \<open>The rate limiter\<close>

lemma RateLimiter_cleanup_lookup:
  "DAList.lookup (RateLimiter_cleanup now st) key =
     (case DAList.lookup st key of
        None \<Rightarrow> None
      | Some info \<Rightarrow> if now > resetTime info then None else Some info)"
  unfolding RateLimiter_cleanup_def by (rule lookup_sweep)

lemma next_limitInfo_cases:
  "next_limitInfo now rule stored =
     (case stored of
        None \<Rightarrow> \<lparr>count = 1, resetTime = now + windowMs rule\<rparr>
      | Some info \<Rightarrow>
          if now > resetTime info then \<lparr>count = 1, resetTime = now + windowMs rule\<rparr>
          else info\<lparr>count := count info + 1\<rparr>)"
  by (simp add: next_limitInfo_def Let_def split: option.splits)

lemma isAllowed_rule_fst:
  "fst (isAllowed_rule now c r (st, a)) =
     DAList.update (RateLimiter_key c r) (next_limitInfo now r (DAList.lookup st (RateLimiter_key c r))) st"
  by (simp add: isAllowed_rule_def Let_def)

lemma isAllowed_rule_snd:
  "snd (isAllowed_rule now c r (st, a)) =
     (a \<and> count (next_limitInfo now r (DAList.lookup st (RateLimiter_key c r))) \<le> maxRequests r)"
  by (auto simp: isAllowed_rule_def Let_def)

lemma isAllowed_rule_pair:
  "isAllowed_rule now c r p =
     (DAList.update (RateLimiter_key c r) (next_limitInfo now r (DAList.lookup (fst p) (RateLimiter_key c r))) (fst p),
      snd p \<and> count (next_limitInfo now r (DAList.lookup (fst p) (RateLimiter_key c r))) \<le> maxRequests r)"
  by (cases p) (auto simp: isAllowed_rule_def Let_def)

lemma fold_rules_fst_flag:
  "fst (fold (isAllowed_rule now c) rs (st, a)) = fst (fold (isAllowed_rule now c) rs (st, True))"
proof (induction rs rule: rev_induct)
  case Nil
  show ?case by simp
next
  case (snoc r rs)
  then show ?case by (simp add: isAllowed_rule_pair)
qed

lemma fold_rules_snd:
  "snd (fold (isAllowed_rule now c) rs (st, a)) =
     (a \<and> (\<forall>i<length rs.
             count (next_limitInfo now (rs ! i)
                      (DAList.lookup (fst (fold (isAllowed_rule now c) (take i rs) (st, True)))
                         (RateLimiter_key c (rs ! i))))
               \<le> maxRequests (rs ! i)))"
proof (induction rs rule: rev_induct)
  case Nil
  show ?case by simp
next
  case (snoc r rs)
  have "fst (fold (isAllowed_rule now c) rs (st, a)) = fst (fold (isAllowed_rule now c) rs (st, True))"
    by (rule fold_rules_fst_flag)
  then show ?case
    using snoc by (auto simp: isAllowed_rule_pair less_Suc_eq nth_append)
qed

lemma fold_rules_other_key:
  "key \<notin> RateLimiter_key c ` set rs \<Longrightarrow>
     DAList.lookup (fst (fold (isAllowed_rule now c) rs (st, a))) key = DAList.lookup st key"
  by (induction rs rule: rev_induct) (auto simp: isAllowed_rule_pair)

lemma counters_after_0:
  "DAList.lookup (counters_after 0 now c rl) key =
     (case DAList.lookup (storage rl) key of
        None \<Rightarrow> None
      | Some info \<Rightarrow> if now > resetTime info then None else Some info)"
  by (simp add: counters_after_def RateLimiter_cleanup_lookup)

lemma counters_after_Suc:
  "i < length (rules rl) \<Longrightarrow>
   counters_after (Suc i) now c rl =
     DAList.update (RateLimiter_key c (rules rl ! i))
       (next_limitInfo now (rules rl ! i)
          (DAList.lookup (counters_after i now c rl) (RateLimiter_key c (rules rl ! i))))
       (counters_after i now c rl)"
  by (simp add: counters_after_def take_Suc_conv_app_nth isAllowed_rule_pair)

lemma RateLimiter_isAllowed_storage:
  "storage (snd (RateLimiter_isAllowed now c rl)) = counters_after (length (rules rl)) now c rl"
  by (simp add: RateLimiter_isAllowed_def counters_after_def Let_def split_def)

lemma RateLimiter_isAllowed_rules:
  "rules (snd (RateLimiter_isAllowed now c rl)) = rules rl"
  by (simp add: RateLimiter_isAllowed_def Let_def split_def)

lemma RateLimiter_isAllowed_fst:
  "fst (RateLimiter_isAllowed now c rl) =
     (\<forall>i<length (rules rl).
        \<forall>info. DAList.lookup (counters_after (Suc i) now c rl) (RateLimiter_key c (rules rl ! i)) = Some info
               \<longrightarrow> count info \<le> maxRequests (rules rl ! i))"
proof -
  have "fst (RateLimiter_isAllowed now c rl) =
          snd (fold (isAllowed_rule now c) (rules rl) (RateLimiter_cleanup now (storage rl), True))"
    by (simp add: RateLimiter_isAllowed_def Let_def split_def)
  also have "\<dots> = (\<forall>i<length (rules rl).
             count (next_limitInfo now (rules rl ! i)
                      (DAList.lookup (counters_after i now c rl) (RateLimiter_key c (rules rl ! i))))
               \<le> maxRequests (rules rl ! i))"
    by (simp add: fold_rules_snd counters_after_def)
  also have "\<dots> = (\<forall>i<length (rules rl).
        \<forall>info. DAList.lookup (counters_after (Suc i) now c rl) (RateLimiter_key c (rules rl ! i)) = Some info
               \<longrightarrow> count info \<le> maxRequests (rules rl ! i))"
    by (auto simp: counters_after_Suc)
  finally show ?thesis .
qed

lemma distinct_rule_keys:
  assumes "distinct (map windowMs rs)" "i < length rs"
  shows "RateLimiter_key c (rs ! i) \<notin> RateLimiter_key c ` set (take i rs)"
    and "RateLimiter_key c (rs ! i) \<notin> RateLimiter_key c ` set (drop (Suc i) rs)"
proof -
  have "rs = take i rs @ rs ! i # drop (Suc i) rs"
    using assms(2) by (rule id_take_nth_drop)
  then have "map windowMs rs =
      map windowMs (take i rs) @ windowMs (rs ! i) # map windowMs (drop (Suc i) rs)"
    by (metis list.simps(9) map_append)
  with assms(1) have
    "distinct (map windowMs (take i rs) @ windowMs (rs ! i) # map windowMs (drop (Suc i) rs))"
    by simp
  then have "windowMs (rs ! i) \<notin> windowMs ` set (take i rs)"
    and "windowMs (rs ! i) \<notin> windowMs ` set (drop (Suc i) rs)"
    by auto
  then show "RateLimiter_key c (rs ! i) \<notin> RateLimiter_key c ` set (take i rs)"
    and "RateLimiter_key c (rs ! i) \<notin> RateLimiter_key c ` set (drop (Suc i) rs)"
    by (auto simp: RateLimiter_key_inj)
qed

lemma counters_after_distinct:
  assumes "distinct (map windowMs (rules rl))" "i < length (rules rl)"
  shows "DAList.lookup (counters_after (length (rules rl)) now c rl) (RateLimiter_key c (rules rl ! i)) =
     Some (next_limitInfo now (rules rl ! i)
             (DAList.lookup (counters_after 0 now c rl) (RateLimiter_key c (rules rl ! i))))"
    and "DAList.lookup (counters_after (Suc i) now c rl) (RateLimiter_key c (rules rl ! i)) =
         DAList.lookup (counters_after (length (rules rl)) now c rl) (RateLimiter_key c (rules rl ! i))"
proof -
  let ?k = "RateLimiter_key c (rules rl ! i)"
  let ?f = "isAllowed_rule now c"
  let ?p0 = "(RateLimiter_cleanup now (storage rl), True)"
  have pre: "DAList.lookup (counters_after i now c rl) ?k = DAList.lookup (counters_after 0 now c rl) ?k"
    using distinct_rule_keys(1)[OF assms, of c]
    by (simp add: counters_after_def fold_rules_other_key)
  have split: "rules rl = take (Suc i) (rules rl) @ drop (Suc i) (rules rl)"
    by simp
  have "counters_after (length (rules rl)) now c rl =
          fst (fold ?f (drop (Suc i) (rules rl)) (fold ?f (take (Suc i) (rules rl)) ?p0))"
    unfolding counters_after_def by (metis split fold_append comp_apply take_all order_refl)
  also have "\<dots> = fst (fold ?f (drop (Suc i) (rules rl))
                        (counters_after (Suc i) now c rl, snd (fold ?f (take (Suc i) (rules rl)) ?p0)))"
    by (simp add: counters_after_def)
  finally have post: "DAList.lookup (counters_after (length (rules rl)) now c rl) ?k =
      DAList.lookup (counters_after (Suc i) now c rl) ?k"
    using distinct_rule_keys(2)[OF assms, of c] by (simp add: fold_rules_other_key)
  then show "DAList.lookup (counters_after (Suc i) now c rl) ?k =
         DAList.lookup (counters_after (length (rules rl)) now c rl) ?k"
    by simp
  show "DAList.lookup (counters_after (length (rules rl)) now c rl) ?k =
     Some (next_limitInfo now (rules rl ! i) (DAList.lookup (counters_after 0 now c rl) ?k))"
    using post pre assms(2) by (simp add: counters_after_Suc)
qed

lemma RateLimiter_window_scenario:
  assumes "t2 \<le> t1 + 1000" "t3 \<le> t1 + 1000" "t1 + 1000 < t4"
  shows "fst (isAllowed_calls c [t1, t2, t3, t4]
                (RateLimiter_new config [\<lparr>windowMs = 1000, maxRequests = 2\<rparr>])) =
           [True, True, False, True]"
  using assms
  by (simp add: RateLimiter_new_def RateLimiter_isAllowed_def isAllowed_rule_def
        next_limitInfo_def Let_def RateLimiter_cleanup_lookup split_def)

text \<open>
  C3. For a call \<^verbatim>\<open>isAllowed(clientId)\<close> at time \<open>now\<close>:
  \<^item> the rules are kept, and the storage after the call is the one reached when all rules
    have been handled;
  \<^item> the cleanup at the start removes exactly the rows with \<open>now > resetTime\<close>;
  \<^item> handling rule \<open>i\<close> writes the row of its key: count \<open>1\<close> and
    \<open>resetTime = now + windowMs\<close> when the key has no row or \<open>now > resetTime\<close>, the old
    row with its count incremented otherwise; no other row changes. This happens for every
    rule, whatever the outcome for the rules before it;
  \<^item> the result is true exactly when no rule's count, as just written, exceeds that
    rule's \<open>maxRequests\<close>;
  \<^item> when the rules have pairwise different windows, each rule has its own row, so the same
    holds with the rows read from the storage before and after the call;
  \<^item> two keys coincide only for the same client and the same window;
  \<^item> with the single rule \<open>{1000, 2}\<close>: a first call at \<open>t1\<close> and two more calls while
    \<open>now \<le> t1 + 1000\<close> give true, true, false; a call after \<open>t1 + 1000\<close> gives true.
\<close>

theorem RateLimiter_isAllowed_spec:
  assumes "RateLimiter_isAllowed now clientId rl = (allowed, rl')"
  shows "rules rl' = rules rl \<and>
     storage rl' = counters_after (length (rules rl)) now clientId rl \<and>
     (\<forall>key. DAList.lookup (counters_after 0 now clientId rl) key =
        (case DAList.lookup (storage rl) key of
           None \<Rightarrow> None
         | Some info \<Rightarrow> if now > resetTime info then None else Some info)) \<and>
     (\<forall>i<length (rules rl).
        DAList.lookup (counters_after (Suc i) now clientId rl) (RateLimiter_key clientId (rules rl ! i)) =
          Some (case DAList.lookup (counters_after i now clientId rl)
                       (RateLimiter_key clientId (rules rl ! i)) of
                  None \<Rightarrow> \<lparr>count = 1, resetTime = now + windowMs (rules rl ! i)\<rparr>
                | Some info \<Rightarrow>
                    if now > resetTime info
                    then \<lparr>count = 1, resetTime = now + windowMs (rules rl ! i)\<rparr>
                    else info\<lparr>count := count info + 1\<rparr>) \<and>
        (\<forall>key. key \<noteq> RateLimiter_key clientId (rules rl ! i) \<longrightarrow>
           DAList.lookup (counters_after (Suc i) now clientId rl) key =
           DAList.lookup (counters_after i now clientId rl) key)) \<and>
     (allowed \<longleftrightarrow>
        (\<forall>i<length (rules rl). \<forall>info.
           DAList.lookup (counters_after (Suc i) now clientId rl)
             (RateLimiter_key clientId (rules rl ! i)) = Some info
           \<longrightarrow> count info \<le> maxRequests (rules rl ! i))) \<and>
     (distinct (map windowMs (rules rl)) \<longrightarrow>
        (\<forall>rule\<in>set (rules rl).
           DAList.lookup (storage rl') (RateLimiter_key clientId rule) =
             Some (case DAList.lookup (storage rl) (RateLimiter_key clientId rule) of
                     None \<Rightarrow> \<lparr>count = 1, resetTime = now + windowMs rule\<rparr>
                   | Some info \<Rightarrow>
                       if now > resetTime info
                       then \<lparr>count = 1, resetTime = now + windowMs rule\<rparr>
                       else info\<lparr>count := count info + 1\<rparr>)) \<and>
        (allowed \<longleftrightarrow>
           (\<forall>rule\<in>set (rules rl). \<forall>info.
              DAList.lookup (storage rl') (RateLimiter_key clientId rule) = Some info
              \<longrightarrow> count info \<le> maxRequests rule))) \<and>
     (\<forall>c r c' r'. RateLimiter_key c r = RateLimiter_key c' r' \<longleftrightarrow>
        c = c' \<and> windowMs r = windowMs r') \<and>
     (\<forall>config c t1 t2 t3 t4. t2 \<le> t1 + 1000 \<and> t3 \<le> t1 + 1000 \<and> t1 + 1000 < t4 \<longrightarrow>
        fst (isAllowed_calls c [t1, t2, t3, t4]
               (RateLimiter_new config [\<lparr>windowMs = 1000, maxRequests = 2\<rparr>])) =
          [True, True, False, True])"
proof -
  have rl': "rl' = snd (RateLimiter_isAllowed now clientId rl)"
    and allowed: "allowed = fst (RateLimiter_isAllowed now clientId rl)"
    using assms by simp_all
  have 1: "rules rl' = rules rl"
    unfolding rl' by (rule RateLimiter_isAllowed_rules)
  have 2: "storage rl' = counters_after (length (rules rl)) now clientId rl"
    unfolding rl' by (rule RateLimiter_isAllowed_storage)
  have 3: "\<forall>key. DAList.lookup (counters_after 0 now clientId rl) key =
        (case DAList.lookup (storage rl) key of
           None \<Rightarrow> None
         | Some info \<Rightarrow> if now > resetTime info then None else Some info)"
    by (simp add: counters_after_0)
  have 4: "\<forall>i<length (rules rl).
        DAList.lookup (counters_after (Suc i) now clientId rl) (RateLimiter_key clientId (rules rl ! i)) =
          Some (case DAList.lookup (counters_after i now clientId rl)
                       (RateLimiter_key clientId (rules rl ! i)) of
                  None \<Rightarrow> \<lparr>count = 1, resetTime = now + windowMs (rules rl ! i)\<rparr>
                | Some info \<Rightarrow>
                    if now > resetTime info
                    then \<lparr>count = 1, resetTime = now + windowMs (rules rl ! i)\<rparr>
                    else info\<lparr>count := count info + 1\<rparr>) \<and>
        (\<forall>key. key \<noteq> RateLimiter_key clientId (rules rl ! i) \<longrightarrow>
           DAList.lookup (counters_after (Suc i) now clientId rl) key =
           DAList.lookup (counters_after i now clientId rl) key)"
    by (simp add: counters_after_Suc next_limitInfo_cases)
  have 5: "allowed \<longleftrightarrow>
        (\<forall>i<length (rules rl). \<forall>info.
           DAList.lookup (counters_after (Suc i) now clientId rl)
             (RateLimiter_key clientId (rules rl ! i)) = Some info
           \<longrightarrow> count info \<le> maxRequests (rules rl ! i))"
    unfolding allowed by (rule RateLimiter_isAllowed_fst)
  have 6: "distinct (map windowMs (rules rl)) \<longrightarrow>
        (\<forall>rule\<in>set (rules rl).
           DAList.lookup (storage rl') (RateLimiter_key clientId rule) =
             Some (case DAList.lookup (storage rl) (RateLimiter_key clientId rule) of
                     None \<Rightarrow> \<lparr>count = 1, resetTime = now + windowMs rule\<rparr>
                   | Some info \<Rightarrow>
                       if now > resetTime info
                       then \<lparr>count = 1, resetTime = now + windowMs rule\<rparr>
                       else info\<lparr>count := count info + 1\<rparr>)) \<and>
        (allowed \<longleftrightarrow>
           (\<forall>rule\<in>set (rules rl). \<forall>info.
              DAList.lookup (storage rl') (RateLimiter_key clientId rule) = Some info
              \<longrightarrow> count info \<le> maxRequests rule))"
    (is "_ \<longrightarrow> ?separate")
  proof (rule impI)
    assume d: "distinct (map windowMs (rules rl))"
    have a: "DAList.lookup (storage rl') (RateLimiter_key clientId rule) =
             Some (case DAList.lookup (storage rl) (RateLimiter_key clientId rule) of
                     None \<Rightarrow> \<lparr>count = 1, resetTime = now + windowMs rule\<rparr>
                   | Some info \<Rightarrow>
                       if now > resetTime info
                       then \<lparr>count = 1, resetTime = now + windowMs rule\<rparr>
                       else info\<lparr>count := count info + 1\<rparr>)"
      if "rule \<in> set (rules rl)" for rule
    proof -
      from that obtain i where i: "i < length (rules rl)" "rule = rules rl ! i"
        by (auto simp: in_set_conv_nth)
      show ?thesis
        unfolding 2 i(2) counters_after_distinct(1)[OF d i(1)]
        by (simp add: counters_after_0 next_limitInfo_cases split: option.splits)
    qed
    have b: "allowed \<longleftrightarrow>
           (\<forall>rule\<in>set (rules rl). \<forall>info.
              DAList.lookup (storage rl') (RateLimiter_key clientId rule) = Some info
              \<longrightarrow> count info \<le> maxRequests rule)"
    proof -
      have "allowed \<longleftrightarrow>
        (\<forall>i<length (rules rl). \<forall>info.
           DAList.lookup (storage rl') (RateLimiter_key clientId (rules rl ! i)) = Some info
           \<longrightarrow> count info \<le> maxRequests (rules rl ! i))"
        unfolding 5 2 by (simp add: counters_after_distinct(2)[OF d])
      then show ?thesis
        by (simp add: all_set_conv_all_nth)
    qed
    from a b show ?separate by blast
  qed
  have 7: "\<forall>config c t1 t2 t3 t4. t2 \<le> t1 + 1000 \<and> t3 \<le> t1 + 1000 \<and> t1 + 1000 < t4 \<longrightarrow>
        fst (isAllowed_calls c [t1, t2, t3, t4]
               (RateLimiter_new config [\<lparr>windowMs = 1000, maxRequests = 2\<rparr>])) =
          [True, True, False, True]"
    using RateLimiter_window_scenario by blast
  have 8: "\<forall>c r c' r'. RateLimiter_key c r = RateLimiter_key c' r' \<longleftrightarrow>
        c = c' \<and> windowMs r = windowMs r'"
    by (simp add: RateLimiter_key_inj)
  show ?thesis
    by (rule conjI [OF 1 conjI [OF 2 conjI [OF 3 conjI [OF 4 conjI [OF 5 conjI [OF 6
          conjI [OF 8 7]]]]]]])
qed

theorem RateLimiter_isAllowed_spec_witness:
  "fst (RateLimiter_isAllowed 0 ''c'' limiter0) \<and>
   DAList.lookup (storage (snd (RateLimiter_isAllowed 0 ''c'' limiter0))) ''c:1000'' =
     Some \<lparr>count = 1, resetTime = 1000\<rparr> \<and>
   fst (isAllowed_calls ''c'' [0, 10, 20, 1001] limiter0) = [True, True, False, True]"
proof -
  have p: "RateLimiter_isAllowed 0 ''c'' limiter0 =
             (fst (RateLimiter_isAllowed 0 ''c'' limiter0), snd (RateLimiter_isAllowed 0 ''c'' limiter0))"
    by simp
  have r: "rules limiter0 = [rule0]" and s: "storage limiter0 = DAList.empty"
    by (simp_all add: limiter0_def RateLimiter_new_def)
  have d: "distinct (map windowMs (rules limiter0))"
    by (simp add: r)
  note T = RateLimiter_isAllowed_spec [OF p]
  note separate = T [THEN conjunct2, THEN conjunct2, THEN conjunct2, THEN conjunct2,
      THEN conjunct2, THEN conjunct1, THEN mp, OF d]
  have row: "\<forall>rule\<in>set (rules limiter0).
           DAList.lookup (storage (snd (RateLimiter_isAllowed 0 ''c'' limiter0))) (RateLimiter_key ''c'' rule) =
             Some (case DAList.lookup (storage limiter0) (RateLimiter_key ''c'' rule) of
                     None \<Rightarrow> \<lparr>count = 1, resetTime = 0 + windowMs rule\<rparr>
                   | Some info \<Rightarrow>
                       if 0 > resetTime info
                       then \<lparr>count = 1, resetTime = 0 + windowMs rule\<rparr>
                       else info\<lparr>count := count info + 1\<rparr>)"
    and ok: "fst (RateLimiter_isAllowed 0 ''c'' limiter0) \<longleftrightarrow>
           (\<forall>rule\<in>set (rules limiter0). \<forall>info.
              DAList.lookup (storage (snd (RateLimiter_isAllowed 0 ''c'' limiter0))) (RateLimiter_key ''c'' rule) = Some info
              \<longrightarrow> count info \<le> maxRequests rule)"
    using separate by (rule conjunct1, rule conjunct2)
  from row have a: "DAList.lookup (storage (snd (RateLimiter_isAllowed 0 ''c'' limiter0))) ''c:1000'' =
     Some \<lparr>count = 1, resetTime = 1000\<rparr>"
    by (simp add: r s key_c) (simp add: rule0_def)
  from ok a have b: "fst (RateLimiter_isAllowed 0 ''c'' limiter0)"
    by (simp add: r key_c) (simp add: rule0_def)
  have "\<forall>config c t1 t2 t3 t4. t2 \<le> t1 + 1000 \<and> t3 \<le> t1 + 1000 \<and> t1 + 1000 < t4 \<longrightarrow>
     fst (isAllowed_calls c [t1, t2, t3, t4]
            (RateLimiter_new config [\<lparr>windowMs = 1000, maxRequests = 2\<rparr>])) = [True, True, False, True]"
    by (rule T [THEN conjunct2, THEN conjunct2, THEN conjunct2, THEN conjunct2,
          THEN conjunct2, THEN conjunct2, THEN conjunct2])
  then have c: "fst (isAllowed_calls ''c'' [0, 10, 20, 1001] limiter0) = [True, True, False, True]"
    by (simp add: limiter0_def rule0_def)
  from a b c show ?thesis by simp
qed

text \<open>
  Two storages that agree on the rows of one client give the same answers to that
  client, and still agree on its rows afterwards.
\<close>

lemma fold_rules_agree:
  assumes "\<forall>r\<in>set R. DAList.lookup m1 (RateLimiter_key b r) = DAList.lookup m2 (RateLimiter_key b r)"
    and "set rs \<subseteq> set R"
  shows "snd (fold (isAllowed_rule t b) rs (m1, f)) = snd (fold (isAllowed_rule t b) rs (m2, f)) \<and>
         (\<forall>r\<in>set R. DAList.lookup (fst (fold (isAllowed_rule t b) rs (m1, f))) (RateLimiter_key b r) =
                      DAList.lookup (fst (fold (isAllowed_rule t b) rs (m2, f))) (RateLimiter_key b r))"
  using assms
proof (induction rs arbitrary: m1 m2 f)
  case Nil
  then show ?case by simp
next
  case (Cons r rs)
  let ?k = "RateLimiter_key b r"
  let ?i = "next_limitInfo t r (DAList.lookup m1 ?k)"
  have same: "DAList.lookup m2 ?k = DAList.lookup m1 ?k"
    using Cons.prems by simp
  have step1: "isAllowed_rule t b r (m1, f) = (DAList.update ?k ?i m1, f \<and> count ?i \<le> maxRequests r)"
    by (simp add: isAllowed_rule_pair)
  have step2: "isAllowed_rule t b r (m2, f) = (DAList.update ?k ?i m2, f \<and> count ?i \<le> maxRequests r)"
    by (simp add: isAllowed_rule_pair same)
  have agree: "\<forall>r'\<in>set R. DAList.lookup (DAList.update ?k ?i m1) (RateLimiter_key b r') =
                           DAList.lookup (DAList.update ?k ?i m2) (RateLimiter_key b r')"
    using Cons.prems(1) by (simp add: DAList.lookup_update)
  have sub: "set rs \<subseteq> set R"
    using Cons.prems(2) by simp
  show ?case
    using Cons.IH[OF agree sub] by (simp add: step1 step2)
qed

lemma RateLimiter_isAllowed_agree:
  assumes "rules rl1 = rules rl2"
    and "\<forall>r\<in>set (rules rl1).
           DAList.lookup (RateLimiter_cleanup t (storage rl1)) (RateLimiter_key b r) =
           DAList.lookup (RateLimiter_cleanup t (storage rl2)) (RateLimiter_key b r)"
  shows "fst (RateLimiter_isAllowed t b rl1) = fst (RateLimiter_isAllowed t b rl2)"
    and "rules (snd (RateLimiter_isAllowed t b rl1)) = rules (snd (RateLimiter_isAllowed t b rl2))"
    and "\<forall>r\<in>set (rules rl1).
           DAList.lookup (storage (snd (RateLimiter_isAllowed t b rl1))) (RateLimiter_key b r) =
           DAList.lookup (storage (snd (RateLimiter_isAllowed t b rl2))) (RateLimiter_key b r)"
  using fold_rules_agree[OF assms(2) subset_refl, of t True] assms(1)
  by (simp_all add: RateLimiter_isAllowed_def Let_def split_def)

lemma isAllowed_calls_agree:
  assumes "rules rl1 = rules rl2"
    and "\<forall>r\<in>set (rules rl1). \<forall>t\<in>set ts.
           DAList.lookup (RateLimiter_cleanup t (storage rl1)) (RateLimiter_key b r) =
           DAList.lookup (RateLimiter_cleanup t (storage rl2)) (RateLimiter_key b r)"
  shows "fst (isAllowed_calls b ts rl1) = fst (isAllowed_calls b ts rl2)"
  using assms
proof (induction ts arbitrary: rl1 rl2)
  case Nil
  show ?case by simp
next
  case (Cons t ts)
  have now: "\<forall>r\<in>set (rules rl1).
           DAList.lookup (RateLimiter_cleanup t (storage rl1)) (RateLimiter_key b r) =
           DAList.lookup (RateLimiter_cleanup t (storage rl2)) (RateLimiter_key b r)"
    using Cons.prems(2) by simp
  note A = RateLimiter_isAllowed_agree[OF Cons.prems(1) now]
  have r1: "rules (snd (RateLimiter_isAllowed t b rl1)) = rules rl1"
    by (rule RateLimiter_isAllowed_rules)
  have later: "\<forall>r\<in>set (rules (snd (RateLimiter_isAllowed t b rl1))). \<forall>t'\<in>set ts.
           DAList.lookup (RateLimiter_cleanup t' (storage (snd (RateLimiter_isAllowed t b rl1)))) (RateLimiter_key b r) =
           DAList.lookup (RateLimiter_cleanup t' (storage (snd (RateLimiter_isAllowed t b rl2)))) (RateLimiter_key b r)"
    using A(3) by (simp add: r1 RateLimiter_cleanup_lookup)
  show ?case
    using Cons.IH[OF A(2) later] A(1) by (simp add: split_def Let_def)
qed

lemma other_client_rows:
  assumes "a \<noteq> b" "t1 \<le> t"
  shows "DAList.lookup (RateLimiter_cleanup t (storage (snd (RateLimiter_isAllowed t1 a rl)))) (RateLimiter_key b r) =
         DAList.lookup (RateLimiter_cleanup t (storage rl)) (RateLimiter_key b r)"
proof -
  have "RateLimiter_key b r \<notin> RateLimiter_key a ` set (rules rl)"
    using assms(1) by (auto simp: RateLimiter_key_inj)
  then have "DAList.lookup (storage (snd (RateLimiter_isAllowed t1 a rl))) (RateLimiter_key b r) =
             DAList.lookup (RateLimiter_cleanup t1 (storage rl)) (RateLimiter_key b r)"
    by (simp add: RateLimiter_isAllowed_storage counters_after_def fold_rules_other_key)
  then show ?thesis
    using assms(2) by (auto simp: RateLimiter_cleanup_lookup split: option.splits)
qed

text \<open>
  C10. Let \<open>a\<close> and \<open>b\<close> be different clients. A call \<^verbatim>\<open>isAllowed(a)\<close> at time \<open>t1\<close>
  changes no result of a run of \<^verbatim>\<open>isAllowed(b)\<close> calls made afterwards, that is at clock
  readings \<open>t \<ge> t1\<close>: the rows of \<open>b\<close> that the cleanup of the call deletes have
  \<open>resetTime < t1 \<le> t\<close>, and the next call for \<open>b\<close> would delete them itself.
\<close>

theorem RateLimiter_clients_independent:
  assumes "a \<noteq> b" and "\<forall>t\<in>set ts. t1 \<le> t"
  shows "fst (isAllowed_calls b ts (snd (RateLimiter_isAllowed t1 a rl))) =
         fst (isAllowed_calls b ts rl)"
proof (rule isAllowed_calls_agree)
  show "rules (snd (RateLimiter_isAllowed t1 a rl)) = rules rl"
    by (rule RateLimiter_isAllowed_rules)
  show "\<forall>r\<in>set (rules (snd (RateLimiter_isAllowed t1 a rl))). \<forall>t\<in>set ts.
       DAList.lookup (RateLimiter_cleanup t (storage (snd (RateLimiter_isAllowed t1 a rl)))) (RateLimiter_key b r) =
       DAList.lookup (RateLimiter_cleanup t (storage rl)) (RateLimiter_key b r)"
    using assms by (simp add: other_client_rows)
qed

theorem RateLimiter_clients_independent_witness:
  "fst (isAllowed_calls ''b'' [2000, 2001]
          (snd (RateLimiter_isAllowed 2000 ''a'' (snd (isAllowed_calls ''b'' [500, 501] limiter0))))) =
     [True, True] \<and>
   fst (isAllowed_calls ''b'' [2000, 2001] (snd (isAllowed_calls ''b'' [500, 501] limiter0))) =
     [True, True]"
proof -
  have ab: "''a'' \<noteq> ''b''" by simp
  have ts: "\<forall>t\<in>set [2000, 2001 :: int]. 2000 \<le> t" by simp
  have "fst (isAllowed_calls ''b'' [2000, 2001] (snd (isAllowed_calls ''b'' [500, 501] limiter0))) =
     [True, True]"
    by (simp add: limiter0_def rule0_def RateLimiter_new_def RateLimiter_isAllowed_def
          isAllowed_rule_def next_limitInfo_def Let_def RateLimiter_cleanup_lookup split_def)
  with RateLimiter_clients_independent [OF ab ts, of "snd (isAllowed_calls ''b'' [500, 501] limiter0)"]
  show ?thesis by simp
qed

subsection \<open>Brute-force protection\<close>

lemma lockout_expired_cong:
  "DAList.lookup (lastAttemptTime b) k = DAList.lookup (lastAttemptTime b') k \<Longrightarrow>
   maxAttempts b = maxAttempts b' \<Longrightarrow> lockoutDuration b = lockoutDuration b' \<Longrightarrow>
   lockout_expired now b k n = lockout_expired now b' k n"
  by (simp add: lockout_expired_def split: option.splits)

lemma fold_clear:
  fixes now :: int
  defines "step \<equiv> (\<lambda>(identifier, attempts) b.
             if lockout_expired now b identifier attempts
             then b\<lparr>failedAttempts := DAList.delete identifier (failedAttempts b),
                    lastAttemptTime := DAList.delete identifier (lastAttemptTime b)\<rparr>
             else b)"
  assumes "distinct (map fst xs)"
  shows "maxAttempts (fold step xs b0) = maxAttempts b0 \<and>
         lockoutDuration (fold step xs b0) = lockoutDuration b0 \<and>
         (\<forall>k. DAList.lookup (failedAttempts (fold step xs b0)) k =
               (if \<exists>n. (k, n) \<in> set xs \<and> lockout_expired now b0 k n then None
                else DAList.lookup (failedAttempts b0) k)) \<and>
         (\<forall>k. DAList.lookup (lastAttemptTime (fold step xs b0)) k =
               (if \<exists>n. (k, n) \<in> set xs \<and> lockout_expired now b0 k n then None
                else DAList.lookup (lastAttemptTime b0) k))"
  using assms(2)
proof (induction xs arbitrary: b0)
  case Nil
  show ?case by simp
next
  case (Cons x xs)
  obtain k1 n1 where x: "x = (k1, n1)" by (cases x)
  let ?b1 = "step (k1, n1) b0"
  have d: "distinct (map fst xs)" and fresh: "k1 \<notin> fst ` set xs"
    using Cons.prems by (auto simp: x)
  have params: "maxAttempts ?b1 = maxAttempts b0" "lockoutDuration ?b1 = lockoutDuration b0"
    by (simp_all add: step_def)
  have last1: "DAList.lookup (lastAttemptTime ?b1) k =
      (if k = k1 \<and> lockout_expired now b0 k1 n1 then None else DAList.lookup (lastAttemptTime b0) k)" for k
    by (simp add: step_def)
  have failed1: "DAList.lookup (failedAttempts ?b1) k =
      (if k = k1 \<and> lockout_expired now b0 k1 n1 then None else DAList.lookup (failedAttempts b0) k)" for k
    by (simp add: step_def)
  have exp: "lockout_expired now ?b1 k n = lockout_expired now b0 k n" if "k \<noteq> k1" for k n
    using that by (intro lockout_expired_cong) (simp_all add: last1 params)
  have notin: "(k1, n) \<notin> set xs" for n
    using fresh by force
  have ex: "(\<exists>n. (k, n) \<in> set xs \<and> lockout_expired now ?b1 k n) =
            (\<exists>n. (k, n) \<in> set xs \<and> lockout_expired now b0 k n)" for k
    using exp[of k] notin by (cases "k = k1") auto
  have fold: "fold step (x # xs) b0 = fold step xs ?b1"
    by (simp add: x)
  show ?case
    unfolding fold using Cons.IH[OF d, of ?b1] notin
    by (auto simp: ex params last1 failed1 x)
qed

lemma clearExpiredLockouts_lookup:
  "maxAttempts (clearExpiredLockouts now bf) = maxAttempts bf"
  "lockoutDuration (clearExpiredLockouts now bf) = lockoutDuration bf"
  "DAList.lookup (failedAttempts (clearExpiredLockouts now bf)) k =
     (if lockout_expired now bf k (attempts_of bf k) then None
      else DAList.lookup (failedAttempts bf) k)"
  "DAList.lookup (lastAttemptTime (clearExpiredLockouts now bf)) k =
     (if DAList.lookup (failedAttempts bf) k \<noteq> None \<and> lockout_expired now bf k (attempts_of bf k)
      then None
      else DAList.lookup (lastAttemptTime bf) k)"
proof -
  have d: "distinct (map fst (DAList.impl_of (failedAttempts bf)))" by simp
  note F = fold_clear[OF d, of now bf, folded clearExpiredLockouts_def]
  have ex: "(\<exists>n. (k, n) \<in> set (DAList.impl_of (failedAttempts bf)) \<and> lockout_expired now bf k n) =
            (DAList.lookup (failedAttempts bf) k \<noteq> None \<and> lockout_expired now bf k (attempts_of bf k))"
    by (auto simp: lookup_impl_of[symmetric] attempts_of_def)
  show "maxAttempts (clearExpiredLockouts now bf) = maxAttempts bf"
    "lockoutDuration (clearExpiredLockouts now bf) = lockoutDuration bf"
    using F by simp_all
  show "DAList.lookup (lastAttemptTime (clearExpiredLockouts now bf)) k =
     (if DAList.lookup (failedAttempts bf) k \<noteq> None \<and> lockout_expired now bf k (attempts_of bf k)
      then None
      else DAList.lookup (lastAttemptTime bf) k)"
    using F ex by simp
  show "DAList.lookup (failedAttempts (clearExpiredLockouts now bf)) k =
     (if lockout_expired now bf k (attempts_of bf k) then None
      else DAList.lookup (failedAttempts bf) k)"
    using F ex by (cases "DAList.lookup (failedAttempts bf) k") auto
qed

lemma recordFailedAttempt_simps:
  "attempts_of (recordFailedAttempt t x bf) y = (if y = x then attempts_of bf x + 1 else attempts_of bf y)"
  "DAList.lookup (lastAttemptTime (recordFailedAttempt t x bf)) y =
     (if y = x then Some t else DAList.lookup (lastAttemptTime bf) y)"
  "maxAttempts (recordFailedAttempt t x bf) = maxAttempts bf"
  "lockoutDuration (recordFailedAttempt t x bf) = lockoutDuration bf"
  by (simp_all add: recordFailedAttempt_def attempts_of_def Let_def DAList.lookup_update)


lemma resetAttempts_simps:
  "attempts_of (resetAttempts x bf) y = (if y = x then 0 else attempts_of bf y)"
  "DAList.lookup (failedAttempts (resetAttempts x bf)) x = None"
  "DAList.lookup (lastAttemptTime (resetAttempts x bf)) x = None"
  "maxAttempts (resetAttempts x bf) = maxAttempts bf"
  "lockoutDuration (resetAttempts x bf) = lockoutDuration bf"
  by (simp_all add: resetAttempts_def attempts_of_def)

lemma attempts_of_clear:
  "attempts_of (clearExpiredLockouts now bf) x =
     (if lockout_expired now bf x (attempts_of bf x) then 0 else attempts_of bf x)"
  by (simp add: attempts_of_def[of "clearExpiredLockouts now bf"] clearExpiredLockouts_lookup)
     (simp add: attempts_of_def)

lemma BruteForceProtection_isAllowed_fst:
  "fst (BruteForceProtection_isAllowed now x bf) =
     (if lockout_expired now bf x (attempts_of bf x) then 0 < maxAttempts bf
      else attempts_of bf x < maxAttempts bf)"
  by (simp add: BruteForceProtection_isAllowed_def Let_def attempts_of_clear clearExpiredLockouts_lookup)

lemma BruteForceProtection_isAllowed_snd:
  "snd (BruteForceProtection_isAllowed now x bf) = clearExpiredLockouts now bf"
  by (simp add: BruteForceProtection_isAllowed_def Let_def)

lemma attempts_of_new: "attempts_of (BruteForceProtection_new m d) x = 0"
  by (simp add: attempts_of_def BruteForceProtection_new_def)

lemma BruteForceProtection_new_params:
  "maxAttempts (BruteForceProtection_new (Some m') d) = m'"
  "lockoutDuration (BruteForceProtection_new m (Some d')) = d'"
  "DAList.lookup (lastAttemptTime (BruteForceProtection_new m d)) x = None"
  by (simp_all add: BruteForceProtection_new_def)

text \<open>
  A run changes neither parameter. Before the limit is reached no check purges,
  whenever it is made; and a locked identifier stays locked, its count growing with
  every failure, while every check comes within the lockout.
\<close>

lemma guard_step_params:
  "maxAttempts (guard_step op bf) = maxAttempts bf"
  "lockoutDuration (guard_step op bf) = lockoutDuration bf"
  by (cases op; simp add: recordFailedAttempt_simps resetAttempts_simps
        BruteForceProtection_isAllowed_snd clearExpiredLockouts_lookup)+

lemma resetAttempts_other:
  "y \<noteq> x \<Longrightarrow> attempts_of (resetAttempts y bf) x = attempts_of bf x"
  "y \<noteq> x \<Longrightarrow> DAList.lookup (lastAttemptTime (resetAttempts y bf)) x = DAList.lookup (lastAttemptTime bf) x"
  by (simp_all add: resetAttempts_def attempts_of_def)

lemma below_limit_not_expired:
  "attempts_of bf x < maxAttempts bf \<Longrightarrow> \<not> lockout_expired now bf x (attempts_of bf x)"
  by (simp add: lockout_expired_def split: option.splits)

text \<open>Before the limit is reached no check purges, whenever it is made.\<close>

lemma count_below_limit:
  assumes "Clear x \<notin> set pre" "attempts_of bf x + int (failures x pre) < maxAttempts bf"
  shows "attempts_of (fold guard_step pre bf) x = attempts_of bf x + int (failures x pre) \<and>
         maxAttempts (fold guard_step pre bf) = maxAttempts bf \<and>
         lockoutDuration (fold guard_step pre bf) = lockoutDuration bf"
  using assms
proof (induction pre arbitrary: bf)
  case Nil
  show ?case by simp
next
  case (Cons op pre)
  have below: "attempts_of bf x < maxAttempts bf"
    using Cons.prems(2) by (cases op) (auto split: if_splits)
  have step: "attempts_of (guard_step op bf) x + int (failures x pre) =
              attempts_of bf x + int (failures x (op # pre))"
  proof (cases op)
    case (Fail t y)
    then show ?thesis by (simp add: recordFailedAttempt_simps)
  next
    case (Clear y)
    then have "y \<noteq> x" using Cons.prems(1) by auto
    then show ?thesis using Clear by (simp add: resetAttempts_other)
  next
    case (Check t y)
    then show ?thesis
      using below_limit_not_expired[OF below]
      by (simp add: BruteForceProtection_isAllowed_snd attempts_of_clear)
  qed
  have "Clear x \<notin> set pre"
    using Cons.prems(1) by simp
  moreover have "attempts_of (guard_step op bf) x + int (failures x pre) < maxAttempts (guard_step op bf)"
    using Cons.prems(2) step by (simp add: guard_step_params)
  ultimately show ?case
    using Cons.IH[of "guard_step op bf"] step by (simp add: guard_step_params)
qed

text \<open>A locked identifier stays locked while every check comes within the lockout.\<close>

lemma lock_persists:
  assumes "maxAttempts bf \<le> attempts_of bf x"
    and "DAList.lookup (lastAttemptTime bf) x = Some tlast"
    and "within_lockout (lockoutDuration bf) x tlast post"
  shows "attempts_of (fold guard_step post bf) x = attempts_of bf x + int (failures x post) \<and>
         DAList.lookup (lastAttemptTime (fold guard_step post bf)) x = Some (latest_failure x tlast post) \<and>
         maxAttempts (fold guard_step post bf) = maxAttempts bf \<and>
         lockoutDuration (fold guard_step post bf) = lockoutDuration bf"
  using assms
proof (induction post arbitrary: bf tlast)
  case Nil
  then show ?case by simp
next
  case (Cons op post)
  show ?case
  proof (cases op)
    case (Fail t y)
    let ?b = "recordFailedAttempt t y bf"
    let ?tl = "if y = x then t else tlast"
    have 1: "maxAttempts ?b \<le> attempts_of ?b x"
      using Cons.prems(1) by (auto simp: recordFailedAttempt_simps)
    have 2: "DAList.lookup (lastAttemptTime ?b) x = Some ?tl"
      using Cons.prems(2) by (simp add: recordFailedAttempt_simps)
    have 3: "within_lockout (lockoutDuration ?b) x ?tl post"
      using Cons.prems(3) Fail by (simp add: recordFailedAttempt_simps)
    show ?thesis
      using Cons.IH[OF 1 2 3] Fail by (simp add: recordFailedAttempt_simps)
  next
    case (Clear y)
    let ?b = "resetAttempts y bf"
    have ne: "y \<noteq> x"
      using Cons.prems(3) Clear by simp
    have 1: "maxAttempts ?b \<le> attempts_of ?b x"
      using Cons.prems(1) ne by (simp add: resetAttempts_other resetAttempts_simps)
    have 2: "DAList.lookup (lastAttemptTime ?b) x = Some tlast"
      using Cons.prems(2) ne by (simp add: resetAttempts_other)
    have 3: "within_lockout (lockoutDuration ?b) x tlast post"
      using Cons.prems(3) Clear by (simp add: resetAttempts_simps)
    show ?thesis
      using Cons.IH[OF 1 2 3] Clear ne by (simp add: resetAttempts_other resetAttempts_simps)
  next
    case (Check t y)
    let ?b = "clearExpiredLockouts t bf"
    have inside: "t - tlast \<le> lockoutDuration bf"
      using Cons.prems(3) Check by simp
    have keep: "\<not> lockout_expired t bf x (attempts_of bf x)"
      using inside Cons.prems(2) by (simp add: lockout_expired_def)
    have 1: "maxAttempts ?b \<le> attempts_of ?b x"
      using Cons.prems(1) keep by (simp add: attempts_of_clear clearExpiredLockouts_lookup)
    have 2: "DAList.lookup (lastAttemptTime ?b) x = Some tlast"
      using Cons.prems(2) keep by (simp add: clearExpiredLockouts_lookup)
    have 3: "within_lockout (lockoutDuration ?b) x tlast post"
      using Cons.prems(3) Check by (simp add: clearExpiredLockouts_lookup)
    show ?thesis
      using Cons.IH[OF 1 2 3] Check keep
      by (simp add: BruteForceProtection_isAllowed_snd attempts_of_clear clearExpiredLockouts_lookup)
  qed
qed

text \<open>
  C4, as stated, fails in two places. With \<open>maxAttempts = 0\<close> nothing is ever allowed,
  so \<^verbatim>\<open>resetAttempts\<close> does not restore \<^verbatim>\<open>isAllowed\<close>. And a failure stamped with the
  clock reading \<open>0\<close> never unlocks: the purge test takes the timestamp \<open>0\<close> for a missing
  one.
\<close>

theorem BruteForceProtection_lockout_counterexample:
  "maxAttempts guard_zero = 0 \<and>
   \<not> fst (BruteForceProtection_isAllowed 5 ''x'' (resetAttempts ''x'' guard_zero)) \<and>
   maxAttempts guard_one = 1 \<and> lockoutDuration guard_one = 10 \<and>
   \<not> fst (BruteForceProtection_isAllowed 5000 ''x'' (recordFailedAttempt 0 ''x'' guard_one))"
  by (simp add: guard_zero_def guard_one_def BruteForceProtection_new_params attempts_of_new
        BruteForceProtection_isAllowed_fst resetAttempts_simps recordFailedAttempt_simps
        lockout_expired_def)

text \<open>
  C4, amended. Let \<open>maxAttempts = m \<ge> 1\<close> and \<open>lockoutDuration = d\<close>. Take any run of
  calls (failures, checks and resets, for any identifiers) in which \<open>x\<close> is not reset and
  the failure of \<open>x\<close> at time \<open>t\<close> is the one that brings its count to \<open>m\<close> (the \<open>m\<close>-th
  failure, for an \<open>x\<close> that starts with none); the calls before it may come at any time.
  Let the calls after it not reset \<open>x\<close>, and let each check among them come at most \<open>d\<close>
  after the latest failure of \<open>x\<close>. Then, after the whole run:
  \<^item> the count of \<open>x\<close> is \<open>m\<close> plus the failures made since: no check has lowered it;
  \<^item> \<^verbatim>\<open>isAllowed(x)\<close> is false as long as \<open>now\<close> is at most \<open>d\<close> after the latest failure;
  \<^item> after \<^verbatim>\<open>resetAttempts(x)\<close>, \<^verbatim>\<open>isAllowed(x)\<close> is true at once;
  \<^item> once \<open>now\<close> is more than \<open>d\<close> after the latest failure (stamped with a non-zero
    clock reading), \<^verbatim>\<open>isAllowed(x)\<close> is true, and the count and the timestamp of \<open>x\<close>
    are both removed.
\<close>

theorem BruteForceProtection_lockout:
  assumes "maxAttempts bf = m" "lockoutDuration bf = d" "1 \<le> m"
    and "Clear x \<notin> set pre" "attempts_of bf x + int (failures x pre) = m - 1"
    and "within_lockout d x t post"
  shows "attempts_of (fold guard_step (pre @ Fail t x # post) bf) x = m + int (failures x post) \<and>
         (now - latest_failure x t post \<le> d \<longrightarrow>
            \<not> fst (BruteForceProtection_isAllowed now x (fold guard_step (pre @ Fail t x # post) bf))) \<and>
         fst (BruteForceProtection_isAllowed now x
                (resetAttempts x (fold guard_step (pre @ Fail t x # post) bf))) \<and>
         (latest_failure x t post \<noteq> 0 \<and> d < now - latest_failure x t post \<longrightarrow>
            fst (BruteForceProtection_isAllowed now x (fold guard_step (pre @ Fail t x # post) bf)) \<and>
            DAList.lookup (failedAttempts (snd (BruteForceProtection_isAllowed now x
                             (fold guard_step (pre @ Fail t x # post) bf)))) x = None \<and>
            DAList.lookup (lastAttemptTime (snd (BruteForceProtection_isAllowed now x
                             (fold guard_step (pre @ Fail t x # post) bf)))) x = None)"
proof -
  define b2 where "b2 = recordFailedAttempt t x (fold guard_step pre bf)"
  define run where "run = fold guard_step (pre @ Fail t x # post) bf"
  define lastf where "lastf = latest_failure x t post"
  have run: "run = fold guard_step post b2"
    by (simp add: run_def b2_def)
  have below: "attempts_of bf x + int (failures x pre) < maxAttempts bf"
    using assms(1,5) by simp
  note P = count_below_limit [OF assms(4) below]
  have c2: "attempts_of b2 x = m"
    using P assms(5) by (simp add: b2_def recordFailedAttempt_simps)
  have p2: "maxAttempts b2 = m" "lockoutDuration b2 = d"
    using P assms(1,2) by (simp_all add: b2_def recordFailedAttempt_simps)
  have l2: "DAList.lookup (lastAttemptTime b2) x = Some t"
    by (simp add: b2_def recordFailedAttempt_simps)
  have locked: "maxAttempts b2 \<le> attempts_of b2 x"
    by (simp add: c2 p2)
  have inside: "within_lockout (lockoutDuration b2) x t post"
    using assms(6) by (simp add: p2)
  note L = lock_persists [OF locked l2 inside, folded run lastf_def]
  have cnt: "attempts_of run x = m + int (failures x post)"
    using L c2 by simp
  have lst: "DAList.lookup (lastAttemptTime run) x = Some lastf"
    using L by simp
  have par: "maxAttempts run = m" "lockoutDuration run = d"
    using L p2 by simp_all
  have ge: "m \<le> attempts_of run x"
    using cnt by simp
  have exp: "lockout_expired now run x (attempts_of run x) \<longleftrightarrow> lastf \<noteq> 0 \<and> d < now - lastf"
    using ge by (simp add: lockout_expired_def lst par)
  have some: "DAList.lookup (failedAttempts run) x \<noteq> None"
    using ge assms(3) by (auto simp: attempts_of_def split: option.splits)
  have 1: "now - lastf \<le> d \<longrightarrow> \<not> fst (BruteForceProtection_isAllowed now x run)"
    using ge by (auto simp: BruteForceProtection_isAllowed_fst exp par)
  have 2: "fst (BruteForceProtection_isAllowed now x (resetAttempts x run))"
    using assms(3)
    by (simp add: BruteForceProtection_isAllowed_fst resetAttempts_simps par)
  have 3: "lastf \<noteq> 0 \<and> d < now - lastf \<longrightarrow>
            fst (BruteForceProtection_isAllowed now x run) \<and>
            DAList.lookup (failedAttempts (snd (BruteForceProtection_isAllowed now x run))) x = None \<and>
            DAList.lookup (lastAttemptTime (snd (BruteForceProtection_isAllowed now x run))) x = None"
    using assms(3) some
    by (simp add: BruteForceProtection_isAllowed_fst BruteForceProtection_isAllowed_snd
          clearExpiredLockouts_lookup exp par)
  show ?thesis
    using conjI [OF cnt conjI [OF 1 conjI [OF 2 3]]]
    unfolding run_def lastf_def .
qed

theorem BruteForceProtection_lockout_witness:
  "\<not> fst (BruteForceProtection_isAllowed 10600 ''127.0.0.1''
           (fold guard_step (trace_pre @ Fail 9000 ''127.0.0.1'' # trace_post) guard0)) \<and>
   fst (BruteForceProtection_isAllowed 10600 ''127.0.0.1''
          (resetAttempts ''127.0.0.1''
             (fold guard_step (trace_pre @ Fail 9000 ''127.0.0.1'' # trace_post) guard0))) \<and>
   fst (BruteForceProtection_isAllowed 10601 ''127.0.0.1''
          (fold guard_step (trace_pre @ Fail 9000 ''127.0.0.1'' # trace_post) guard0)) \<and>
   DAList.lookup (failedAttempts (snd (BruteForceProtection_isAllowed 10601 ''127.0.0.1''
      (fold guard_step (trace_pre @ Fail 9000 ''127.0.0.1'' # trace_post) guard0)))) ''127.0.0.1'' = None \<and>
   attempts_of (fold guard_step (trace_pre @ Fail 9000 ''127.0.0.1'' # trace_post) guard0)
     ''127.0.0.1'' = 4"
proof -
  have h: "maxAttempts guard0 = 3" "lockoutDuration guard0 = 1000" "(1::int) \<le> 3"
    "Clear ''127.0.0.1'' \<notin> set trace_pre"
    "attempts_of guard0 ''127.0.0.1'' + int (failures ''127.0.0.1'' trace_pre) = 3 - 1"
    "within_lockout 1000 ''127.0.0.1'' 9000 trace_post"
    by (simp_all add: guard0_def BruteForceProtection_new_def attempts_of_def trace_pre_def
          trace_post_def)
  have l: "latest_failure ''127.0.0.1'' 9000 trace_post = 9600"
    "failures ''127.0.0.1'' trace_post = 1"
    by (simp_all add: trace_post_def)
  note T = BruteForceProtection_lockout [OF h]
  from T [of 10600] T [of 10601] show ?thesis
    by (simp add: l)
qed

text \<open>
  C5, as stated, fails: \<^verbatim>\<open>recordFailedAttempt\<close> never purges. With \<open>maxAttempts = 1\<close>
  and a lockout of \<open>10\<close>, a failure at \<open>1\<close> locks the identifier; the next failure, at
  \<open>100\<close> and with no \<^verbatim>\<open>isAllowed\<close> call in between, makes the count \<open>2\<close>.
\<close>

theorem recordFailedAttempt_after_lockout_counterexample:
  "attempts_of (recordFailedAttempt 1 ''x'' guard_one) ''x'' = 1 \<and>
   maxAttempts (recordFailedAttempt 1 ''x'' guard_one) = 1 \<and>
   DAList.lookup (lastAttemptTime (recordFailedAttempt 1 ''x'' guard_one)) ''x'' = Some 1 \<and>
   lockoutDuration (recordFailedAttempt 1 ''x'' guard_one) < 100 - 1 \<and>
   attempts_of (recordFailedAttempt 100 ''x'' (recordFailedAttempt 1 ''x'' guard_one)) ''x'' = 2"
  by (simp add: guard_one_def BruteForceProtection_new_params attempts_of_new
        recordFailedAttempt_simps)

text \<open>
  C5, amended. Let the record of \<open>x\<close> have \<open>count \<ge> maxAttempts\<close> and a non-zero
  \<open>lastAttemptAt\<close> with \<open>now - lastAttemptAt > lockoutDuration\<close>. An \<^verbatim>\<open>isAllowed\<close> call at
  \<open>now\<close>, for any identifier, removes the count and the timestamp of \<open>x\<close>, and a failure
  recorded after it leaves \<open>x\<close> with count \<open>1\<close>. A failure recorded without that call
  increments the old count.
\<close>

theorem lockout_purge_fresh_window:
  assumes "DAList.lookup (failedAttempts bf) x = Some n" "maxAttempts bf \<le> n"
    and "DAList.lookup (lastAttemptTime bf) x = Some tlast" "tlast \<noteq> 0" "lockoutDuration bf < now - tlast"
  shows "DAList.lookup (failedAttempts (snd (BruteForceProtection_isAllowed now y bf))) x = None \<and>
         DAList.lookup (lastAttemptTime (snd (BruteForceProtection_isAllowed now y bf))) x = None \<and>
         attempts_of (recordFailedAttempt t x (snd (BruteForceProtection_isAllowed now y bf))) x = 1 \<and>
         attempts_of (recordFailedAttempt t x bf) x = n + 1"
proof -
  have a: "attempts_of bf x = n"
    using assms(1) by (simp add: attempts_of_def)
  have exp: "lockout_expired now bf x (attempts_of bf x)"
    using assms by (simp add: lockout_expired_def a)
  show ?thesis
    using exp assms(1)
    by (simp add: BruteForceProtection_isAllowed_snd clearExpiredLockouts_lookup
          recordFailedAttempt_simps attempts_of_clear a)
qed

theorem lockout_purge_fresh_window_witness:
  "DAList.lookup (failedAttempts (snd (BruteForceProtection_isAllowed 100 ''y''
      (recordFailedAttempt 1 ''x'' guard_one)))) ''x'' = None \<and>
   attempts_of (recordFailedAttempt 100 ''x'' (snd (BruteForceProtection_isAllowed 100 ''y''
      (recordFailedAttempt 1 ''x'' guard_one)))) ''x'' = 1"
proof -
  let ?bf = "recordFailedAttempt 1 ''x'' guard_one"
  have h: "DAList.lookup (failedAttempts ?bf) ''x'' = Some 1" "maxAttempts ?bf \<le> 1"
    "DAList.lookup (lastAttemptTime ?bf) ''x'' = Some 1" "(1::int) \<noteq> 0" "lockoutDuration ?bf < 100 - 1"
    by (simp_all add: guard_one_def BruteForceProtection_new_def recordFailedAttempt_def
          attempts_of_def Let_def)
  from lockout_purge_fresh_window [OF h, of "''y''" 100] show ?thesis by simp
qed

subsection \<open>Configuration reads\<close>

text \<open>
  \<^verbatim>\<open>updateConfig\<close> writes to no rule object and to no array. What a limiter shows
  depends on the world only through its rules array and the rule objects in it, and
  right after construction it shows \<open>RateLimiter_new\<close>.
\<close>

lemma updateConfig_objects:
  "rule_at (snd (updateConfig env u w)) = rule_at w"
  "array_at (snd (updateConfig env u w)) = array_at w"
  by (simp_all add: updateConfig_def Let_def split: option.splits)

lemma RateLimiter_seen_cong:
  assumes "array_at w' (rules_ref obj) = array_at w (rules_ref obj)"
    and "\<forall>a\<in>set (array_at w (rules_ref obj)). rule_at w' a = rule_at w a"
  shows "RateLimiter_seen w' obj = RateLimiter_seen w obj"
  using assms by (simp add: RateLimiter_seen_def)

lemma RateLimiter_constructor_seen:
  "RateLimiter_seen (snd (RateLimiter_constructor arg w)) (fst (RateLimiter_constructor arg w)) =
     RateLimiter_new (getConfig w)
       (case arg of None \<Rightarrow> [] | Some a \<Rightarrow> map (rule_at w) (array_at w a))"
  by (simp add: RateLimiter_constructor_def default_rules_def RateLimiter_seen_def
        RateLimiter_new_def getConfig_def split: option.splits)

lemma RateLimiter_object_isAllowed_cong:
  "RateLimiter_seen w' obj = RateLimiter_seen w obj \<Longrightarrow>
     RateLimiter_object_isAllowed w' now c obj = RateLimiter_object_isAllowed w now c obj"
  by (simp add: RateLimiter_object_isAllowed_def)

lemma updateConfig_seen:
  "RateLimiter_seen (snd (updateConfig env u w)) obj = RateLimiter_seen w obj"
  by (simp add: RateLimiter_seen_def updateConfig_objects)

text \<open>
  C9, as stated, fails in two places. \<^verbatim>\<open>create\<close> and \<^verbatim>\<open>refresh\<close> call
  \<^verbatim>\<open>getConfig()\<close> when they run: a manager built under \<open>sessionTTL = 1000\<close> stamps
  \<open>now + 5000\<close> once the configuration says \<open>5000\<close>. And a limiter built without rules
  holds the configuration's \<^verbatim>\<open>defaultRateLimit\<close> object itself: after an assignment
  \<^verbatim>\<open>maxRequests = 0\<close> to that object, the limiter refuses the request it allowed before.
\<close>

theorem sessionTTL_read_at_call_counterexample:
  "sessionTTL config0 = 1000 \<and>
   map_option expiresAt
     (fst (getSession 10 ''ab''
        (refreshSession (config0\<lparr>sessionTTL := 5000\<rparr>) 10 ''ab''
           (SessionManager_new config0 sessions0)))) = Some 5010 \<and>
   expiresAt (fst (SessionStore_create (config0\<lparr>sessionTTL := 5000\<rparr>) ''cd'' 10 ''u2'' Map.empty
                    (store (SessionManager_new config0 sessions0)))) = 5010 \<and>
   fst (RateLimiter_object_isAllowed (snd (RateLimiter_constructor None world0)) 5 ''c''
          (fst (RateLimiter_constructor None world0))) \<and>
   \<not> fst (RateLimiter_object_isAllowed
            (assign_rule (defaultRateLimit' (liveConfig world0))
               \<lparr>windowMs = 900000, maxRequests = 0\<rparr> (snd (RateLimiter_constructor None world0)))
            5 ''c'' (fst (RateLimiter_constructor None world0)))"
  by (simp add: getSession_def refreshSession_def SessionManager_new_def SessionStore_get_def
        SessionStore_refresh_def SessionStore_create_def sessions0_def session0_def config0_def
        split_def Let_def RateLimiter_object_isAllowed_def RateLimiter_constructor_def
        default_rules_def RateLimiter_seen_def world0_def assign_rule_def
        RateLimiter_isAllowed_def isAllowed_rule_def next_limitInfo_def
        RateLimiter_cleanup_lookup)

text \<open>
  C9, amended.
  \<^item> \<^verbatim>\<open>create\<close> and \<^verbatim>\<open>refresh\<close> stamp \<open>now + sessionTTL\<close> of the configuration of the
    world \<open>w\<close> in which they are called, whatever configuration \<open>config\<close> the manager was
    built under; an accepted \<^verbatim>\<open>updateConfig\<close> with a new \<open>sessionTTL\<close> is what the next
    \<^verbatim>\<open>getConfig()\<close> returns.
  \<^item> The manager's creation rule \<open>{60000, 10}\<close> and its cleanup period \<open>300000\<close> are
    literals.
  \<^item> A \<^verbatim>\<open>RateLimiter\<close> reads the configuration in its constructor only, and only when it
    is given no rule: what it shows then is \<open>RateLimiter_new\<close> of the configuration of
    that moment. Afterwards no operation changes the array it refers to; a later
    \<^verbatim>\<open>updateConfig\<close> changes no answer of \<^verbatim>\<open>isAllowed\<close>, and neither does any change of
    the world that leaves its rules array and the rule objects in it as they are.
  \<^item> \<^verbatim>\<open>BruteForceProtection\<close> takes its two numbers as constructor arguments (\<open>5\<close> and
    \<open>900000\<close> when left out), and no operation changes them.
\<close>

theorem configuration_reads:
  "expiresAt (fst (SessionStore_create (getConfig w) sessionId now uid d
                     (store (SessionManager_new config st)))) = now + sessionTTL' (liveConfig w) \<and>
   (\<forall>s. DAList.lookup st sessionId = Some s \<longrightarrow>
        DAList.lookup (store (refreshSession (getConfig w) now sessionId (SessionManager_new config st)))
          sessionId = Some (s\<lparr>expiresAt := now + sessionTTL' (liveConfig w)\<rparr>)) \<and>
   (\<forall>v. fst (updateConfig env u w) = Inr () \<and> new_sessionTTL u = Some v \<longrightarrow>
        sessionTTL (getConfig (snd (updateConfig env u w))) = v) \<and>
   rules (rateLimiter (SessionManager_new config st)) = [\<lparr>windowMs = 60000, maxRequests = 10\<rparr>] \<and>
   cleanupIntervalMs (SessionManager_new config st) = 300000 \<and>
   RateLimiter_seen (snd (RateLimiter_constructor arg w)) (fst (RateLimiter_constructor arg w)) =
     RateLimiter_new (getConfig w)
       (case arg of None \<Rightarrow> [] | Some a \<Rightarrow> map (rule_at w) (array_at w a)) \<and>
   rules_ref (snd (RateLimiter_object_isAllowed w now clientId obj)) = rules_ref obj \<and>
   rules_ref (RateLimiter_object_reset w clientId obj) = rules_ref obj \<and>
   RateLimiter_object_isAllowed (snd (updateConfig env u w)) now clientId obj =
     RateLimiter_object_isAllowed w now clientId obj \<and>
   (array_at w' (rules_ref obj) = array_at w (rules_ref obj) \<and>
    (\<forall>a\<in>set (array_at w (rules_ref obj)). rule_at w' a = rule_at w a) \<longrightarrow>
      RateLimiter_object_isAllowed w' now clientId obj =
      RateLimiter_object_isAllowed w now clientId obj) \<and>
   maxAttempts (BruteForceProtection_new (Some m) (Some l)) = m \<and>
   lockoutDuration (BruteForceProtection_new (Some m) (Some l)) = l \<and>
   maxAttempts (BruteForceProtection_new None None) = 5 \<and>
   lockoutDuration (BruteForceProtection_new None None) = 900000 \<and>
   maxAttempts (recordFailedAttempt now x bf) = maxAttempts bf \<and>
   lockoutDuration (recordFailedAttempt now x bf) = lockoutDuration bf \<and>
   maxAttempts (resetAttempts x bf) = maxAttempts bf \<and>
   lockoutDuration (resetAttempts x bf) = lockoutDuration bf \<and>
   maxAttempts (snd (BruteForceProtection_isAllowed now x bf)) = maxAttempts bf \<and>
   lockoutDuration (snd (BruteForceProtection_isAllowed now x bf)) = lockoutDuration bf"
proof -
  have 1: "expiresAt (fst (SessionStore_create (getConfig w) sessionId now uid d
                     (store (SessionManager_new config st)))) = now + sessionTTL' (liveConfig w)"
    by (simp add: SessionStore_create_def Let_def getConfig_def)
  have 2: "\<forall>s. DAList.lookup st sessionId = Some s \<longrightarrow>
        DAList.lookup (store (refreshSession (getConfig w) now sessionId (SessionManager_new config st)))
          sessionId = Some (s\<lparr>expiresAt := now + sessionTTL' (liveConfig w)\<rparr>)"
    by (simp add: refreshSession_def SessionManager_new_def SessionStore_refresh_def getConfig_def)
  have 3: "\<forall>v. fst (updateConfig env u w) = Inr () \<and> new_sessionTTL u = Some v \<longrightarrow>
        sessionTTL (getConfig (snd (updateConfig env u w))) = v"
    by (auto simp: updateConfig_def Let_def getConfig_def spread_def split: option.splits)
  have 4: "rules (rateLimiter (SessionManager_new config st)) = [\<lparr>windowMs = 60000, maxRequests = 10\<rparr>]"
    "cleanupIntervalMs (SessionManager_new config st) = 300000"
    by (simp_all add: SessionManager_new_def RateLimiter_new_def)
  have 5: "RateLimiter_seen (snd (RateLimiter_constructor arg w)) (fst (RateLimiter_constructor arg w)) =
     RateLimiter_new (getConfig w)
       (case arg of None \<Rightarrow> [] | Some a \<Rightarrow> map (rule_at w) (array_at w a))"
    by (rule RateLimiter_constructor_seen)
  have 6: "rules_ref (snd (RateLimiter_object_isAllowed w now clientId obj)) = rules_ref obj"
    "rules_ref (RateLimiter_object_reset w clientId obj) = rules_ref obj"
    by (simp_all add: RateLimiter_object_isAllowed_def RateLimiter_object_reset_def split_def
          Let_def)
  have 7: "RateLimiter_object_isAllowed (snd (updateConfig env u w)) now clientId obj =
     RateLimiter_object_isAllowed w now clientId obj"
    by (rule RateLimiter_object_isAllowed_cong) (rule updateConfig_seen)
  have 8: "array_at w' (rules_ref obj) = array_at w (rules_ref obj) \<and>
    (\<forall>a\<in>set (array_at w (rules_ref obj)). rule_at w' a = rule_at w a) \<longrightarrow>
      RateLimiter_object_isAllowed w' now clientId obj =
      RateLimiter_object_isAllowed w now clientId obj"
    by (auto intro!: RateLimiter_object_isAllowed_cong RateLimiter_seen_cong)
  have 9: "maxAttempts (BruteForceProtection_new (Some m) (Some l)) = m"
    "lockoutDuration (BruteForceProtection_new (Some m) (Some l)) = l"
    "maxAttempts (BruteForceProtection_new None None) = 5"
    "lockoutDuration (BruteForceProtection_new None None) = 900000"
    by (simp_all add: BruteForceProtection_new_def)
  have 10: "maxAttempts (recordFailedAttempt now x bf) = maxAttempts bf"
    "lockoutDuration (recordFailedAttempt now x bf) = lockoutDuration bf"
    "maxAttempts (resetAttempts x bf) = maxAttempts bf"
    "lockoutDuration (resetAttempts x bf) = lockoutDuration bf"
    "maxAttempts (snd (BruteForceProtection_isAllowed now x bf)) = maxAttempts bf"
    "lockoutDuration (snd (BruteForceProtection_isAllowed now x bf)) = lockoutDuration bf"
    by (simp_all add: recordFailedAttempt_simps resetAttempts_simps
          BruteForceProtection_isAllowed_snd clearExpiredLockouts_lookup)
  show ?thesis
    by (intro conjI) (fact 1 2 3 4 5 6 7 8 9 10)+
qed

theorem configuration_reads_witness:
  "sessionTTL (getConfig (snd (updateConfig (Some ''test'') update_ttl world0))) = 5000 \<and>
   DAList.lookup (store (refreshSession
      (getConfig (snd (updateConfig (Some ''test'') update_ttl world0)))
      10 ''ab'' (SessionManager_new (getConfig world0) sessions0))) ''ab'' =
     Some (session0\<lparr>expiresAt := 5010\<rparr>) \<and>
   RateLimiter_object_isAllowed
     (snd (updateConfig (Some ''test'') update_rule (snd (RateLimiter_constructor None world0))))
     5 ''c'' (fst (RateLimiter_constructor None world0)) =
   RateLimiter_object_isAllowed (snd (RateLimiter_constructor None world0))
     5 ''c'' (fst (RateLimiter_constructor None world0)) \<and>
   RateLimiter_object_isAllowed
     (assign_rule 7 \<lparr>windowMs = 1, maxRequests = 0\<rparr> (snd (RateLimiter_constructor None world0)))
     5 ''c'' (fst (RateLimiter_constructor None world0)) =
   RateLimiter_object_isAllowed (snd (RateLimiter_constructor None world0))
     5 ''c'' (fst (RateLimiter_constructor None world0))"
proof -
  let ?w1 = "snd (RateLimiter_constructor None world0)"
  let ?obj = "fst (RateLimiter_constructor None world0)"
  have ok: "fst (updateConfig (Some ''test'') update_ttl world0) = Inr () \<and>
            new_sessionTTL update_ttl = Some 5000"
    by (simp add: updateConfig_def Let_def validateConfig_def spread_def world0_def update_ttl_def)
  have look: "DAList.lookup sessions0 ''ab'' = Some session0"
    by (simp add: sessions0_def)
  note T = configuration_reads [where w = "snd (updateConfig (Some ''test'') update_ttl world0)"
      and sessionId = "''ab''" and now = 10 and config = "getConfig world0" and st = sessions0]
  note V = configuration_reads [where w = world0 and env = "Some ''test''" and u = update_ttl]
  note U = configuration_reads [where w = ?w1 and env = "Some ''test''" and u = update_rule
      and now = 5 and clientId = "''c''" and obj = ?obj
      and w' = "assign_rule 7 \<lparr>windowMs = 1, maxRequests = 0\<rparr> ?w1"]
  have ttl: "sessionTTL (getConfig (snd (updateConfig (Some ''test'') update_ttl world0))) = 5000"
    using V [THEN conjunct2, THEN conjunct2, THEN conjunct1] ok by blast
  then have ttl': "sessionTTL' (liveConfig (snd (updateConfig (Some ''test'') update_ttl world0))) = 5000"
    by (simp add: getConfig_def)
  have a: "DAList.lookup (store (refreshSession
      (getConfig (snd (updateConfig (Some ''test'') update_ttl world0)))
      10 ''ab'' (SessionManager_new (getConfig world0) sessions0))) ''ab'' =
     Some (session0\<lparr>expiresAt := 5010\<rparr>)"
    using T [THEN conjunct2, THEN conjunct1] look ttl' by simp
  have b: "RateLimiter_object_isAllowed (snd (updateConfig (Some ''test'') update_rule ?w1))
             5 ''c'' ?obj = RateLimiter_object_isAllowed ?w1 5 ''c'' ?obj"
    by (rule U [THEN conjunct2, THEN conjunct2, THEN conjunct2, THEN conjunct2, THEN conjunct2,
          THEN conjunct2, THEN conjunct2, THEN conjunct2, THEN conjunct1])
  have same: "array_at (assign_rule 7 \<lparr>windowMs = 1, maxRequests = 0\<rparr> ?w1) (rules_ref ?obj) =
                array_at ?w1 (rules_ref ?obj) \<and>
              (\<forall>a\<in>set (array_at ?w1 (rules_ref ?obj)).
                  rule_at (assign_rule 7 \<lparr>windowMs = 1, maxRequests = 0\<rparr> ?w1) a = rule_at ?w1 a)"
    by (simp add: assign_rule_def RateLimiter_constructor_def default_rules_def world0_def)
  have c: "RateLimiter_object_isAllowed (assign_rule 7 \<lparr>windowMs = 1, maxRequests = 0\<rparr> ?w1)
             5 ''c'' ?obj = RateLimiter_object_isAllowed ?w1 5 ''c'' ?obj"
    by (rule U [THEN conjunct2, THEN conjunct2, THEN conjunct2, THEN conjunct2, THEN conjunct2,
          THEN conjunct2, THEN conjunct2, THEN conjunct2, THEN conjunct2, THEN conjunct1,
          THEN mp, OF same])
  show ?thesis
    by (rule conjI [OF ttl conjI [OF a conjI [OF b c]]])
qed

end
